(* ===== verification/JS_Prelude.thy ===== *)
theory JS_Prelude
  imports Main "HOL-Library.While_Combinator" "HOL-Library.Char_ord"
begin

text \<open>
  The JavaScript primitives that \<^verbatim>\<open>src/tiny-compiler.js\<close> relies on, and the
  generic lemmas the component theories share.

  \<^item> Errors are values: \<open>js_error + 'a\<close> (\<open>Inl\<close> the exception). Every exception of
    the program is a \<^verbatim>\<open>TypeError\<close>: \<open>TypeError msg\<close> is an explicit
    \<^verbatim>\<open>throw new TypeError(msg)\<close>, \<open>TypeError_undefined\<close> the one the engine raises
    when a property of \<^verbatim>\<open>undefined\<close> or \<^verbatim>\<open>null\<close> is read.
    \<open>AssertionError msg\<close> is the exception of \<^verbatim>\<open>assert.deepStrictEqual\<close>, which only
    \<^verbatim>\<open>src/test.js\<close> calls.
  \<^item> A call that changes a state \<open>'s\<close> has a result of type \<open>('s, 'a) exit\<close>: it
    returns (\<open>Inr\<close>), or it throws and leaves the state that it had reached at the
    \<^verbatim>\<open>throw\<close> (\<open>Inl (e, s)\<close>). \<open>uncaught\<close> forgets that state, \<open>last_state\<close> is the
    state at either exit.
  \<^item> A computation that may loop forever has type \<open>'a outcome\<close>: \<open>None\<close> is "does
    not return", \<open>Some (Inl e)\<close> "throws \<open>e\<close>", \<open>Some (Inr x)\<close> "returns \<open>x\<close>".
  \<^item> A string is a \<open>char list\<close>; a \<open>char\<close> stands for a UTF-16 code unit below
    256. A one-character string or \<^verbatim>\<open>undefined\<close> (the value of \<^verbatim>\<open>s[i]\<close>) is a
    \<open>char option\<close>.
  \<^item> \<open>js_index\<close> is \<^verbatim>\<open>xs[i]\<close>, \<open>to_string\<close> the coercion that \<^verbatim>\<open>+=\<close> and
    \<^verbatim>\<open>RegExp.prototype.test\<close> apply to their argument, \<open>regex_test\<close> the test of an
    unanchored one-character class, \<open>join\<close> is \<^verbatim>\<open>Array.prototype.join\<close>.
\<close>

section \<open>Errors and outcomes\<close>

named_theorems js_prim \<open>defining equations of the JavaScript primitives\<close>

datatype js_error = TypeError string | TypeError_undefined | AssertionError string

type_synonym 'a result = "js_error + 'a"

type_synonym 'a outcome = "'a result option"

abbreviation Returns :: "'a \<Rightarrow> ('e + 'a) option" where
  "Returns x \<equiv> Some (Inr x)"

abbreviation Throws :: "'e \<Rightarrow> ('e + 'a) option" where
  "Throws e \<equiv> Some (Inl e)"

abbreviation Diverges :: "('e + 'a) option" where
  "Diverges \<equiv> None"

type_synonym ('s, 'a) exit = "(js_error \<times> 's) + 'a"

definition uncaught :: "('s, 'a) exit \<Rightarrow> 'a result" where
  "uncaught r = (case r of Inl (e, s) \<Rightarrow> Inl e | Inr x \<Rightarrow> Inr x)"

definition last_state :: "('s, 's) exit \<Rightarrow> 's" where
  "last_state r = (case r of Inl (e, s) \<Rightarrow> s | Inr s \<Rightarrow> s)"

definition map_result :: "('a \<Rightarrow> 'b) \<Rightarrow> 'e + 'a \<Rightarrow> 'e + 'b" where
  "map_result f = map_sum id f"

definition map_outcome :: "('a \<Rightarrow> 'b) \<Rightarrow> ('e + 'a) option \<Rightarrow> ('e + 'b) option" where
  "map_outcome f = map_option (map_result f)"

definition bind_outcome :: "('e + 'a) option \<Rightarrow> ('a \<Rightarrow> ('e + 'b) option) \<Rightarrow> ('e + 'b) option" where
  "bind_outcome m f = (case m of None \<Rightarrow> None | Some (Inl e) \<Rightarrow> Some (Inl e) | Some (Inr x) \<Rightarrow> f x)"

section \<open>Indexing, coercion, regular expressions, join\<close>

definition js_index :: "'a list \<Rightarrow> nat \<Rightarrow> 'a option" where
  "js_index xs i = (if i < length xs then Some (xs ! i) else None)"

definition slice :: "nat \<Rightarrow> nat \<Rightarrow> 'a list \<Rightarrow> 'a list" where
  "slice i j xs = take (j - i) (drop i xs)"

definition to_string :: "char option \<Rightarrow> string" where
  "to_string c = (case c of None \<Rightarrow> ''undefined'' | Some ch \<Rightarrow> [ch])"

definition regex_test :: "(char \<Rightarrow> bool) \<Rightarrow> char option \<Rightarrow> bool" where
  "regex_test cls c = list_ex cls (to_string c)"

definition quote :: char where
  "quote = CHR 0x22"

fun join :: "string \<Rightarrow> string list \<Rightarrow> string" where
  "join sep [] = []"
| "join sep [x] = x"
| "join sep (x # y # ys) = x @ sep @ join sep (y # ys)"

lemmas [js_prim] = js_index_def to_string_def regex_test_def quote_def

section \<open>Results and outcomes\<close>

lemma map_result_simps [simp]:
  "map_result f (Inl e) = Inl e"
  "map_result f (Inr x) = Inr (f x)"
  by (simp_all add: map_result_def)

lemma map_result_id [simp]: "map_result (\<lambda>x. x) r = r"
  by (cases r) simp_all

lemma map_result_comp [simp]: "map_result f (map_result g r) = map_result (\<lambda>x. f (g x)) r"
  by (cases r) simp_all

lemma map_result_eq_Inr_iff [simp]: "map_result f r = Inr y \<longleftrightarrow> (\<exists>x. r = Inr x \<and> y = f x)"
  by (cases r) auto

lemma map_result_eq_Inl_iff [simp]: "map_result f r = Inl e \<longleftrightarrow> r = Inl e"
  by (cases r) auto

lemma map_outcome_simps [simp]:
  "map_outcome f None = None"
  "map_outcome f (Some (Inl e)) = Some (Inl e)"
  "map_outcome f (Some (Inr x)) = Some (Inr (f x))"
  by (simp_all add: map_outcome_def)

lemma map_outcome_id [simp]: "map_outcome (\<lambda>x. x) m = m"
  by (cases m) (simp_all add: map_outcome_def)

lemma map_outcome_comp [simp]:
  "map_outcome f (map_outcome g m) = map_outcome (\<lambda>x. f (g x)) m"
  by (cases m) (simp_all add: map_outcome_def)

lemma map_outcome_ext: "(\<And>x. f x = g x) \<Longrightarrow> map_outcome f m = map_outcome g m"
  by (cases m rule: option.exhaust; cases "the m") (simp_all add: map_outcome_def)

lemma map_outcome_append_Nil [simp]: "map_outcome ((@) []) m = m"
  using map_outcome_ext [of "(@) []" "\<lambda>x. x" m] by simp

lemma map_outcome_append_snoc:
  "map_outcome ((@) (xs @ [x])) m = map_outcome ((@) xs) (map_outcome ((#) x) m)"
  using map_outcome_ext [of "(@) (xs @ [x])" "\<lambda>ys. xs @ x # ys" m] by simp

lemma map_outcome_eq_None_iff [simp]: "map_outcome f m = None \<longleftrightarrow> m = None"
  by (simp add: map_outcome_def)

lemma map_outcome_eq_Returns_iff [simp]:
  "map_outcome f m = Some (Inr y) \<longleftrightarrow> (\<exists>x. m = Some (Inr x) \<and> y = f x)"
  by (cases m) (auto simp: map_outcome_def)

lemma map_outcome_eq_Throws_iff [simp]:
  "map_outcome f m = Some (Inl e) \<longleftrightarrow> m = Some (Inl e)"
  by (cases m) (auto simp: map_outcome_def)

lemma uncaught_simps [simp]:
  "uncaught (Inl (e, s)) = Inl e"
  "uncaught (Inr x) = Inr x"
  by (simp_all add: uncaught_def)

lemma uncaught_eq_Inr_iff [simp]: "uncaught r = Inr x \<longleftrightarrow> r = Inr x"
  by (cases r) auto

lemma uncaught_eq_Inl_iff: "uncaught r = Inl e \<longleftrightarrow> (\<exists>s. r = Inl (e, s))"
  by (cases r) auto

lemma last_state_simps [simp]:
  "last_state (Inl (e, s)) = s"
  "last_state (Inr s) = s"
  by (simp_all add: last_state_def)

lemma bind_outcome_simps [simp]:
  "bind_outcome None f = None"
  "bind_outcome (Some (Inl e)) f = Some (Inl e)"
  "bind_outcome (Some (Inr x)) f = f x"
  by (simp_all add: bind_outcome_def)

lemma bind_outcome_eq_Returns_iff:
  "bind_outcome m f = Some (Inr y) \<longleftrightarrow> (\<exists>x. m = Some (Inr x) \<and> f x = Some (Inr y))"
  by (auto simp: bind_outcome_def split: option.splits sum.splits)

section \<open>Indexing\<close>

lemma js_index_eq_Some_iff: "js_index xs i = Some x \<longleftrightarrow> i < length xs \<and> xs ! i = x"
  by (auto simp: js_index_def)

lemma js_index_eq_None_iff [simp]: "js_index xs i = None \<longleftrightarrow> length xs \<le> i"
  by (auto simp: js_index_def)

lemma js_index_beyond: "length xs \<le> i \<Longrightarrow> js_index xs i = None"
  by (simp add: js_index_def)

lemma js_index_in_range [simp]: "i < length xs \<Longrightarrow> js_index xs i = Some (xs ! i)"
  by (simp add: js_index_def)

lemma js_index_Nil [simp]: "js_index [] i = None"
  by (simp add: js_index_def)

lemma js_index_Cons_0 [simp]: "js_index (x # xs) 0 = Some x"
  by (simp add: js_index_def)

lemma js_index_Cons_Suc [simp]: "js_index (x # xs) (Suc i) = js_index xs i"
  by (simp add: js_index_def)

lemma js_index_drop: "js_index xs i = (case drop i xs of [] \<Rightarrow> None | x # _ \<Rightarrow> Some x)"
proof (cases "i < length xs")
  case True
  then show ?thesis by (simp add: Cons_nth_drop_Suc [symmetric])
next
  case False
  then show ?thesis by simp
qed

lemma js_index_drop_Cons: "drop i xs = y # ys \<Longrightarrow> js_index xs i = Some y"
  by (simp add: js_index_drop)

lemma js_index_append_left: "i < length xs \<Longrightarrow> js_index (xs @ ys) i = js_index xs i"
  by (simp add: js_index_def nth_append)

lemma js_index_append_Some: "js_index xs i = Some x \<Longrightarrow> js_index (xs @ ys) i = Some x"
  by (simp add: js_index_eq_Some_iff nth_append)

lemma js_index_append_right: "js_index (xs @ ys) (length xs + i) = js_index ys i"
  by (simp add: js_index_def)

lemma drop_eq_Cons_iff: "drop i xs = y # ys \<longleftrightarrow> i < length xs \<and> xs ! i = y \<and> drop (Suc i) xs = ys"
proof
  assume d: "drop i xs = y # ys"
  then have i: "i < length xs" by (cases "i < length xs") auto
  with d show "i < length xs \<and> xs ! i = y \<and> drop (Suc i) xs = ys"
    by (simp add: Cons_nth_drop_Suc [symmetric])
next
  assume "i < length xs \<and> xs ! i = y \<and> drop (Suc i) xs = ys"
  then show "drop i xs = y # ys"
    by (auto simp: Cons_nth_drop_Suc)
qed

lemma drop_Suc_of_Cons: "drop i xs = y # ys \<Longrightarrow> drop (Suc i) xs = ys"
  by (simp add: drop_eq_Cons_iff)

lemma in_set_drop_Suc: "x \<in> set (drop (Suc n) xs) \<Longrightarrow> x \<in> set (drop n xs)"
  using set_drop_subset_set_drop [of n "Suc n" xs] by auto

lemma takeWhile_le_drop: "c \<le> length xs \<Longrightarrow> c + length (takeWhile P (drop c xs)) \<le> length xs"
  using length_takeWhile_le [of P "drop c xs"] by simp

lemma drop_add_takeWhile:
  "drop (i + length (takeWhile P (drop i xs))) xs = dropWhile P (drop i xs)"
proof -
  have "drop (length (takeWhile P (drop i xs))) (drop i xs) = dropWhile P (drop i xs)"
    by (rule dropWhile_eq_drop [symmetric])
  then show ?thesis by (simp add: add.commute)
qed

section \<open>Slices\<close>

lemma js_index_SomeD: "js_index xs i = Some x \<Longrightarrow> i < length xs"
  by (simp add: js_index_eq_Some_iff)

lemma slice_same [simp]: "slice i i xs = []"
  by (simp add: slice_def)

lemma slice_all [simp]: "slice 0 (length xs) xs = xs"
  by (simp add: slice_def)

lemma slice_beyond [simp]: "length xs \<le> i \<Longrightarrow> slice i j xs = []"
  by (simp add: slice_def)

lemma slice_one: "js_index xs i = Some x \<Longrightarrow> slice i (Suc i) xs = [x]"
  by (auto simp: slice_def js_index_eq_Some_iff take_Suc hd_drop_conv_nth)

lemma slice_append: "i \<le> j \<Longrightarrow> j \<le> k \<Longrightarrow> slice i j xs @ slice j k xs = slice i k xs"
proof -
  assume le: "i \<le> j" "j \<le> k"
  then have "take (k - i) (drop i xs) = take (j - i) (drop i xs) @ take (k - j) (drop (j - i) (drop i xs))"
    using take_add [of "j - i" "k - j" "drop i xs"] by simp
  with le show ?thesis by (simp add: slice_def)
qed

lemma slice_snoc: "i \<le> j \<Longrightarrow> js_index xs j = Some x \<Longrightarrow> slice i (Suc j) xs = slice i j xs @ [x]"
  using slice_append [of i j "Suc j" xs] by (simp add: slice_one)

lemma slice_Cons: "js_index xs i = Some x \<Longrightarrow> i < j \<Longrightarrow> slice i j xs = x # slice (Suc i) j xs"
  using slice_append [of i "Suc i" j xs] by (simp add: slice_one)

section \<open>Runs of characters\<close>

lemma list_all_takeWhile_id: "list_all P xs \<Longrightarrow> takeWhile P (xs @ ys) = xs @ takeWhile P ys"
  by (induction xs) simp_all

lemma list_all_dropWhile_id: "list_all P xs \<Longrightarrow> dropWhile P (xs @ ys) = dropWhile P ys"
  by (induction xs) simp_all

lemma list_all_last: "list_all P xs \<Longrightarrow> xs \<noteq> [] \<Longrightarrow> P (last xs)"
  by (simp add: list_all_iff)

lemma run_split:
  assumes "list_all P v" and "rest = [] \<or> \<not> P (hd rest)"
  shows "takeWhile P (v @ rest) = v" and "dropWhile P (v @ rest) = rest"
proof -
  from assms(2) have "takeWhile P rest = []" "dropWhile P rest = rest"
    by (cases rest; simp)+
  with assms(1) show "takeWhile P (v @ rest) = v" and "dropWhile P (v @ rest) = rest"
    by (simp_all add: list_all_takeWhile_id list_all_dropWhile_id)
qed

lemma run_decompose:
  obtains v rest where "xs = v @ rest" "list_all P v" "rest = [] \<or> \<not> P (hd rest)"
proof
  show "xs = takeWhile P xs @ dropWhile P xs" by simp
  show "list_all P (takeWhile P xs)" by (induction xs) simp_all
  show "dropWhile P xs = [] \<or> \<not> P (hd (dropWhile P xs))" using hd_dropWhile [of P xs] by blast
qed

lemma run_unique:
  assumes "v @ r = v' @ r'" and "list_all P v" and "list_all P v'"
    and "r = [] \<or> \<not> P (hd r)" and "r' = [] \<or> \<not> P (hd r')"
  shows "v = v' \<and> r = r'"
  using run_split [OF assms(2,4)] run_split [OF assms(3,5)] assms(1) by simp

lemma drop_add_append: "drop i xs = v @ rest \<Longrightarrow> drop (i + length v) xs = rest"
  by (metis add.commute append_eq_conv_conj drop_drop)

lemma drop_past:
  assumes "drop current input = pre @ rest" and "current \<le> length input"
  shows "drop (current + length pre) input = rest" and "current + length pre \<le> length input"
  using drop_add_append [OF assms(1)] arg_cong [OF assms(1), of length] assms(2) by simp_all

section \<open>Coercion and regular expressions\<close>

lemma to_string_Some [simp]: "to_string (Some c) = [c]"
  by (simp add: to_string_def)

lemma to_string_None [simp]: "to_string None = ''undefined''"
  by (simp add: to_string_def)

lemma regex_test_Some [simp]: "regex_test cls (Some c) = cls c"
  by (simp add: regex_test_def)

lemma regex_test_None: "regex_test cls None = (\<exists>c \<in> set ''undefined''. cls c)"
  by (simp add: regex_test_def list_ex_iff)

section \<open>Join\<close>

lemma join_Cons: "join sep (x # xs) = (if xs = [] then x else x @ sep @ join sep xs)"
  by (cases xs) simp_all

lemma join_short: "length xs \<le> 1 \<Longrightarrow> join sep xs = concat xs"
  by (cases xs; cases "tl xs") simp_all

lemma join_append:
  "xs \<noteq> [] \<Longrightarrow> ys \<noteq> [] \<Longrightarrow> join sep (xs @ ys) = join sep xs @ sep @ join sep ys"
  by (induction sep xs rule: join.induct) (simp_all add: join_Cons)

lemma join_empty_sep: "join [] xs = concat xs"
  by (induction "[] :: string" xs rule: join.induct) simp_all

lemma length_join:
  "length (join sep xs) = sum_list (map length xs) + (length xs - 1) * length sep"
  by (induction sep xs rule: join.induct) simp_all

lemma join_Cons_concat: "join sep (x # xs) = x @ concat (map ((@) sep) xs)"
  by (induction xs arbitrary: x) (simp_all add: join_Cons)

lemma separated_stop:
  assumes "\<And>t. stop (sep @ t)" and "stop e"
  shows "stop (concat (map (\<lambda>x. sep @ f x) xs) @ e)"
  using assms by (cases xs) simp_all

lemma separated_unique:
  assumes "concat (map (\<lambda>x. sep @ f x) xs) @ e = concat (map (\<lambda>x. sep @ f x) ys) @ e'"
    and "\<And>x y r r'. x \<in> set xs \<Longrightarrow> y \<in> set ys \<Longrightarrow> f x @ r = f y @ r' \<Longrightarrow> stop r \<Longrightarrow> stop r' \<Longrightarrow>
      x = y \<and> r = r'"
    and sep: "\<And>t. stop (sep @ t)" and e: "stop e" "stop e'"
    and "\<And>t. e \<noteq> sep @ t" and "\<And>t. e' \<noteq> sep @ t"
  shows "xs = ys \<and> e = e'"
  using assms(1,2)
proof (induction xs arbitrary: ys)
  case Nil
  with assms(6) show ?case by (cases ys) auto
next
  case (Cons x xs)
  show ?case
  proof (cases ys)
    case Nil
    with Cons.prems(1) assms(7) [of "f x @ concat (map (\<lambda>x. sep @ f x) xs) @ e"] show ?thesis by simp
  next
    case ys: (Cons y ys')
    from Cons.prems(1) have "f x @ concat (map (\<lambda>x. sep @ f x) xs) @ e =
        f y @ concat (map (\<lambda>x. sep @ f x) ys') @ e'"
      by (simp add: ys)
    from Cons.prems(2) [OF _ _ this separated_stop [of stop, OF sep e(1)] separated_stop [of stop, OF sep e(2)]]
    have head: "x = y" and rest: "concat (map (\<lambda>x. sep @ f x) xs) @ e = concat (map (\<lambda>x. sep @ f x) ys') @ e'"
      by (simp_all add: ys)
    have "xs = ys' \<and> e = e'"
    proof (rule Cons.IH [OF rest])
      fix a b r r' assume "a \<in> set xs" "b \<in> set ys'" "f a @ r = f b @ r'" "stop r" "stop r'"
      with Cons.prems(2) [of a b r r'] show "a = b \<and> r = r'" by (simp add: ys)
    qed
    with head show ?thesis by (simp add: ys)
  qed
qed

lemma join_unique:
  assumes "join sep (map f xs) @ e = join sep (map f ys) @ e'"
    and elems: "\<And>x y r r'. x \<in> set xs \<Longrightarrow> y \<in> set ys \<Longrightarrow> f x @ r = f y @ r' \<Longrightarrow> stop r \<Longrightarrow> stop r' \<Longrightarrow>
      x = y \<and> r = r'"
    and sep: "\<And>t. stop (sep @ t)" and e: "stop e" "stop e'"
    and "\<And>t. e \<noteq> sep @ t" and "\<And>t. e' \<noteq> sep @ t"
    and "\<And>y t. y \<in> set ys \<Longrightarrow> e \<noteq> f y @ t" and "\<And>x t. x \<in> set xs \<Longrightarrow> e' \<noteq> f x @ t"
  shows "xs = ys \<and> e = e'"
proof (cases xs; cases ys)
  fix x xs' y ys' assume xs: "xs = x # xs'" and ys: "ys = y # ys'"
  from assms(1) have "f x @ concat (map (\<lambda>x. sep @ f x) xs') @ e = f y @ concat (map (\<lambda>x. sep @ f x) ys') @ e'"
    by (simp add: xs ys join_Cons_concat comp_def)
  from elems [OF _ _ this separated_stop [of stop, OF sep e(1)] separated_stop [of stop, OF sep e(2)]]
  have head: "x = y" and rest: "concat (map (\<lambda>x. sep @ f x) xs') @ e = concat (map (\<lambda>x. sep @ f x) ys') @ e'"
    by (simp_all add: xs ys)
  have "xs' = ys' \<and> e = e'"
  proof (rule separated_unique [of sep f xs' e ys' e' stop, OF rest _ sep e assms(6,7)])
    fix a b r r' assume "a \<in> set xs'" "b \<in> set ys'" "f a @ r = f b @ r'" "stop r" "stop r'"
    with elems [of a b r r'] show "a = b \<and> r = r'" by (simp add: xs ys)
  qed
  with head show ?thesis by (simp add: xs ys)
next
  fix y ys' assume "xs = []" "ys = y # ys'"
  with assms(1) assms(8) [of y "concat (map ((@) sep) (map f ys')) @ e'"] show ?thesis
    by (simp add: join_Cons_concat)
next
  fix x xs' assume "xs = x # xs'" "ys = []"
  with assms(1) assms(9) [of x "concat (map ((@) sep) (map f xs')) @ e"] show ?thesis
    by (simp add: join_Cons_concat)
qed (use assms(1) in simp)

end
