(* ===== verification/Syntax.thy ===== *)
theory Syntax
  imports JS_Prelude
begin

text \<open>
  The data model of \<^verbatim>\<open>src/tiny-compiler.js\<close>: tokens and abstract syntax trees.

  \<^item> A token is the object \<^verbatim>\<open>{ type, value }\<close> the tokenizer pushes; its \<^verbatim>\<open>type\<close> is
    one of the four strings \<^verbatim>\<open>'paren'\<close>, \<^verbatim>\<open>'number'\<close>, \<^verbatim>\<open>'string'\<close>, \<^verbatim>\<open>'name'\<close>
    (\<open>type_name\<close> gives the string back, for the parser's error message).
  \<^item> A \<open>node\<close> is an object of one of the seven shapes the program builds, each with
    all the fields of its shape. The parser builds \<open>Program\<close>, \<open>CallExpression\<close>
    (fields \<^verbatim>\<open>name\<close>, \<^verbatim>\<open>params\<close>), \<open>NumberLiteral\<close> and \<open>StringLiteral\<close>; the
    transformer builds \<open>Program\<close>, \<open>ExpressionStatement\<close>, \<open>NewCallExpression\<close>
    (the object with \<^verbatim>\<open>type: 'CallExpression'\<close> and fields \<^verbatim>\<open>callee\<close>,
    \<^verbatim>\<open>arguments\<close>), \<open>Identifier\<close> and the two literals. \<open>node_type\<close> is the
    \<^verbatim>\<open>type\<close> field, on which the traverser and the code generator dispatch.
  \<^item> \<open>old_expression\<close> and \<open>old_program\<close> recognise the trees of the input language
    (what \<^verbatim>\<open>test.js\<close> calls \<^verbatim>\<open>ast\<close>), \<open>new_expression\<close>, \<open>new_statement\<close> and
    \<open>new_program\<close> those of the output language (\<^verbatim>\<open>newAst\<close>). A statement of the
    output language is a literal or an \<^verbatim>\<open>ExpressionStatement\<close> around a call, as lines
    227 to 232 build it; a call without that wrapper is an expression and no statement.
\<close>

section \<open>Tokens\<close>

datatype token_type = Paren | Number | String | Name

primrec type_name :: "token_type \<Rightarrow> string" where
  "type_name Paren = ''paren''"
| "type_name Number = ''number''"
| "type_name String = ''string''"
| "type_name Name = ''name''"

record token =
  tok_type :: token_type
  tok_value :: string

abbreviation Token :: "token_type \<Rightarrow> string \<Rightarrow> token" where
  "Token t v \<equiv> \<lparr>tok_type = t, tok_value = v\<rparr>"

section \<open>Abstract syntax trees\<close>

datatype node =
    Program "node list"
  | CallExpression string "node list"
  | NumberLiteral string
  | StringLiteral string
  | ExpressionStatement node
  | NewCallExpression node "node list"
  | Identifier string

primrec node_type :: "node \<Rightarrow> string" where
  "node_type (Program body) = ''Program''"
| "node_type (CallExpression name params) = ''CallExpression''"
| "node_type (NumberLiteral v) = ''NumberLiteral''"
| "node_type (StringLiteral v) = ''StringLiteral''"
| "node_type (ExpressionStatement expression) = ''ExpressionStatement''"
| "node_type (NewCallExpression callee arguments) = ''CallExpression''"
| "node_type (Identifier name) = ''Identifier''"

fun new_call :: "node \<Rightarrow> bool" where
  "new_call (NewCallExpression callee arguments) \<longleftrightarrow> True"
| "new_call node \<longleftrightarrow> False"

fun old_expression :: "node \<Rightarrow> bool" where
  "old_expression (NumberLiteral v) = True"
| "old_expression (StringLiteral v) = True"
| "old_expression (CallExpression name params) = list_all old_expression params"
| "old_expression _ = False"

fun old_program :: "node \<Rightarrow> bool" where
  "old_program (Program body) = list_all old_expression body"
| "old_program _ = False"

fun new_expression :: "node \<Rightarrow> bool" where
  "new_expression (NumberLiteral v) = True"
| "new_expression (StringLiteral v) = True"
| "new_expression (NewCallExpression (Identifier name) arguments) = list_all new_expression arguments"
| "new_expression _ = False"

fun new_statement :: "node \<Rightarrow> bool" where
  "new_statement (ExpressionStatement e) = (new_call e \<and> new_expression e)"
| "new_statement (NumberLiteral v) = True"
| "new_statement (StringLiteral v) = True"
| "new_statement _ = False"

fun new_program :: "node \<Rightarrow> bool" where
  "new_program (Program body) = list_all new_statement body"
| "new_program _ = False"

section \<open>Basic facts\<close>

lemma type_name_inject [simp]: "type_name a = type_name b \<longleftrightarrow> a = b"
  by (cases a; cases b) simp_all

lemma token_eq_iff: "(s :: token) = t \<longleftrightarrow> tok_type s = tok_type t \<and> tok_value s = tok_value t"
  by (cases s; cases t) auto

lemma node_type_cases:
  "node_type n \<in> {''Program'', ''CallExpression'', ''NumberLiteral'', ''StringLiteral'',
     ''ExpressionStatement'', ''Identifier''}"
  by (cases n) simp_all

lemma old_expression_cases:
  "old_expression n \<longleftrightarrow>
     (\<exists>v. n = NumberLiteral v) \<or> (\<exists>v. n = StringLiteral v) \<or>
     (\<exists>name params. n = CallExpression name params \<and> list_all old_expression params)"
  by (cases n) simp_all

lemma old_program_cases: "old_program n \<longleftrightarrow> (\<exists>body. n = Program body \<and> list_all old_expression body)"
  by (cases n) simp_all

lemma new_program_cases: "new_program n \<longleftrightarrow> (\<exists>body. n = Program body \<and> list_all new_statement body)"
  by (cases n) simp_all

lemma new_statement_cases:
  "new_statement n \<longleftrightarrow>
     (\<exists>v. n = NumberLiteral v) \<or> (\<exists>v. n = StringLiteral v) \<or>
     (\<exists>name arguments. n = ExpressionStatement (NewCallExpression (Identifier name) arguments) \<and>
        list_all new_expression arguments)"
proof (cases n)
  case (ExpressionStatement e)
  then show ?thesis by (cases e rule: new_expression.cases) simp_all
qed simp_all

lemma new_statement_not_call [simp]:
  "\<not> new_statement (NewCallExpression callee arguments)" "\<not> new_statement (CallExpression name params)"
  by simp_all

end
