(* ===== verification/Tokenizer.thy ===== *)
theory Tokenizer
  imports Syntax "HOL-Library.Sublist"
begin

text \<open>
  The lexer: \<^verbatim>\<open>tokenizer\<close> of \<^verbatim>\<open>src/tiny-compiler.js\<close> (lines 1 to 81).

  \<^item> \<open>PARENS\<close>, \<open>WHITESPACE\<close>, \<open>NUMBERS\<close>, \<open>LETTERS\<close> are the character classes of the
    four regular expressions; \<^verbatim>\<open>R.test(char)\<close> is \<open>regex_test R char\<close>.
  \<^item> \<open>scan_loop\<close> is the shape the three inner \<^verbatim>\<open>while\<close> loops share, over the
    loop's variables \<^verbatim>\<open>(value, char, current)\<close>, as a \<open>while_option\<close>: \<open>None\<close> when
    the loop never leaves. \<open>number_loop\<close>, \<open>string_loop\<close> and \<open>name_loop\<close> are the
    three loops. \<^verbatim>\<open>value\<close> is a list of any length and \<^verbatim>\<open>current\<close> a natural number, so a
    loop whose test never fails runs forever; an engine, in which the length of a
    string is bounded, ends it with a \<^verbatim>\<open>RangeError\<close> at \<^verbatim>\<open>value += char\<close> once \<^verbatim>\<open>value\<close>
    has reached that bound. \<open>Diverges\<close> therefore reads "does not return: the loop
    goes on until the engine gives up", and the exceptions of the model are those that
    the program throws or that a read of \<^verbatim>\<open>undefined\<close> causes.
  \<^item> \<open>tokenizer_loop\<close> is the outer \<^verbatim>\<open>while (current < input.length)\<close>, one branch per
    \<^verbatim>\<open>if\<close> of the body in the source's order; \<open>tokenizer\<close> runs it from
    \<^verbatim>\<open>current = 0\<close>, \<^verbatim>\<open>tokens = []\<close>.
  \<^item> \<open>tokenizer_step\<close> is one iteration of the body of the outer loop that ends in a
    \<^verbatim>\<open>continue\<close>, as a relation between the values of \<^verbatim>\<open>(current, tokens)\<close> at the head
    of the loop: one rule for each \<^verbatim>\<open>if\<close>, with the conditions of the \<^verbatim>\<open>if\<close>s before it
    negated and the inner loop as a premise. There is no step from a configuration
    whose iteration throws or whose inner loop does not return. \<open>step_loop\<close> relates
    a step to one unfolding of \<open>tokenizer_loop\<close>, and the lemmas on the branches of the
    loop follow from the steps.
  \<^item> \<open>lex\<close> is the reference definition: the same function by recursion on the rest
    of the input, with \<open>takeWhile\<close> and \<open>dropWhile\<close> for the inner loops. The
    refinement lemmas show that the cursor-based loops compute it; the properties of
    the tokenizer are then proved on \<open>lex\<close>.
\<close>

section \<open>Character classes\<close>

definition PARENS :: "char \<Rightarrow> bool" where
  "PARENS c \<longleftrightarrow> c = CHR ''('' \<or> c = CHR '')''"

definition WHITESPACE :: "char \<Rightarrow> bool" where
  "WHITESPACE c \<longleftrightarrow> c \<in> {CHR 0x09, CHR 0x0A, CHR 0x0B, CHR 0x0C, CHR 0x0D, CHR 0x20, CHR 0xA0}"

definition NUMBERS :: "char \<Rightarrow> bool" where
  "NUMBERS c \<longleftrightarrow> CHR ''0'' \<le> c \<and> c \<le> CHR ''9''"

definition LETTERS :: "char \<Rightarrow> bool" where
  "LETTERS c \<longleftrightarrow> (CHR ''a'' \<le> c \<and> c \<le> CHR ''z'') \<or> (CHR ''A'' \<le> c \<and> c \<le> CHR ''Z'')"

section \<open>The inner loops\<close>

type_synonym scan_state = "string \<times> char option \<times> nat"

definition scan_loop :: "(char option \<Rightarrow> bool) \<Rightarrow> string \<Rightarrow> scan_state \<Rightarrow> scan_state option" where
  "scan_loop test input =
     while_option (\<lambda>(value, char, current). test char)
       (\<lambda>(value, char, current). (value @ to_string char, js_index input (current + 1), current + 1))"

definition number_loop :: "string \<Rightarrow> scan_state \<Rightarrow> scan_state option" where
  "number_loop = scan_loop (regex_test NUMBERS)"

definition string_loop :: "string \<Rightarrow> scan_state \<Rightarrow> scan_state option" where
  "string_loop = scan_loop (\<lambda>char. char \<noteq> Some quote)"

definition name_loop :: "string \<Rightarrow> scan_state \<Rightarrow> scan_state option" where
  "name_loop = scan_loop (regex_test LETTERS)"

section \<open>The outer loop\<close>

definition unknown_character :: "char option \<Rightarrow> js_error" where
  "unknown_character char = TypeError (''I do not know what this character is: '' @ to_string char)"

partial_function (option) tokenizer_loop :: "string \<Rightarrow> nat \<Rightarrow> token list \<Rightarrow> token list outcome" where
  "tokenizer_loop input current tokens =
    (if current < length input then
       (let char = js_index input current in
        if regex_test PARENS char then
          tokenizer_loop input (current + 1) (tokens @ [Token Paren (to_string char)])
        else if regex_test WHITESPACE char then
          tokenizer_loop input (current + 1) tokens
        else if regex_test NUMBERS char then
          (case number_loop input ([], char, current) of
             None \<Rightarrow> None
           | Some (value, char', current') \<Rightarrow>
               tokenizer_loop input current' (tokens @ [Token Number value]))
        else if char = Some quote then
          (case string_loop input ([], js_index input (current + 1), current + 1) of
             None \<Rightarrow> None
           | Some (value, char', current') \<Rightarrow>
               tokenizer_loop input (current' + 1) (tokens @ [Token String value]))
        else if regex_test LETTERS char then
          (case name_loop input ([], char, current) of
             None \<Rightarrow> None
           | Some (value, char', current') \<Rightarrow>
               tokenizer_loop input (current' + 1) (tokens @ [Token Name value]))
        else Throws (unknown_character char))
     else Returns tokens)"

definition tokenizer :: "string \<Rightarrow> token list outcome" where
  "tokenizer input = tokenizer_loop input 0 []"

section \<open>One iteration of the outer loop\<close>

type_synonym config = "nat \<times> token list"

inductive tokenizer_step :: "string \<Rightarrow> config \<Rightarrow> config \<Rightarrow> bool" for input where
  Paren: "current < length input \<Longrightarrow> char = js_index input current \<Longrightarrow> regex_test PARENS char \<Longrightarrow>
    tokenizer_step input (current, tokens) (current + 1, tokens @ [Token Paren (to_string char)])"
| Space: "current < length input \<Longrightarrow> char = js_index input current \<Longrightarrow> \<not> regex_test PARENS char \<Longrightarrow>
    regex_test WHITESPACE char \<Longrightarrow>
    tokenizer_step input (current, tokens) (current + 1, tokens)"
| Number: "current < length input \<Longrightarrow> char = js_index input current \<Longrightarrow> \<not> regex_test PARENS char \<Longrightarrow>
    \<not> regex_test WHITESPACE char \<Longrightarrow> regex_test NUMBERS char \<Longrightarrow>
    number_loop input ([], char, current) = Some (value, char', current') \<Longrightarrow>
    tokenizer_step input (current, tokens) (current', tokens @ [Token Number value])"
| Str: "current < length input \<Longrightarrow> char = js_index input current \<Longrightarrow> \<not> regex_test PARENS char \<Longrightarrow>
    \<not> regex_test WHITESPACE char \<Longrightarrow> \<not> regex_test NUMBERS char \<Longrightarrow> char = Some quote \<Longrightarrow>
    string_loop input ([], js_index input (current + 1), current + 1) = Some (value, char', current') \<Longrightarrow>
    tokenizer_step input (current, tokens) (current' + 1, tokens @ [Token String value])"
| Name: "current < length input \<Longrightarrow> char = js_index input current \<Longrightarrow> \<not> regex_test PARENS char \<Longrightarrow>
    \<not> regex_test WHITESPACE char \<Longrightarrow> \<not> regex_test NUMBERS char \<Longrightarrow> char \<noteq> Some quote \<Longrightarrow>
    regex_test LETTERS char \<Longrightarrow>
    name_loop input ([], char, current) = Some (value, char', current') \<Longrightarrow>
    tokenizer_step input (current, tokens) (current' + 1, tokens @ [Token Name value])"

code_pred tokenizer_step .

inductive_cases tokenizer_stepE: "tokenizer_step input (current, tokens) next_config"

section \<open>The reference definition\<close>

function lex :: "string \<Rightarrow> token list outcome" where
  "lex [] = Returns []"
| "lex (c # cs) =
    (if PARENS c then map_outcome ((#) (Token Paren [c])) (lex cs)
     else if WHITESPACE c then lex cs
     else if NUMBERS c then
       map_outcome ((#) (Token Number (c # takeWhile NUMBERS cs))) (lex (dropWhile NUMBERS cs))
     else if c = quote then
       (case dropWhile (\<lambda>d. d \<noteq> quote) cs of
          [] \<Rightarrow> Diverges
        | q # rest \<Rightarrow> map_outcome ((#) (Token String (takeWhile (\<lambda>d. d \<noteq> quote) cs))) (lex rest))
     else if LETTERS c then
       (case dropWhile LETTERS cs of
          [] \<Rightarrow> Diverges
        | d # rest \<Rightarrow> map_outcome ((#) (Token Name (c # takeWhile LETTERS cs))) (lex rest))
     else Throws (unknown_character (Some c)))"
  by pat_completeness auto
termination
proof (relation "measure length")
  fix c cs q rest
  assume "dropWhile (\<lambda>d. d \<noteq> quote) cs = q # rest"
  then have "length (q # rest) \<le> length cs"
    by (metis length_dropWhile_le)
  then show "(rest, c # cs) \<in> measure length" by simp
next
  fix c cs d rest
  assume "dropWhile LETTERS cs = d # rest"
  then have "length (d # rest) \<le> length cs"
    by (metis length_dropWhile_le)
  then show "(rest, c # cs) \<in> measure length" by simp
qed (simp_all add: length_dropWhile_le less_Suc_eq_le)

section \<open>Well-formed tokens, known characters\<close>

definition known_char :: "char \<Rightarrow> bool" where
  "known_char c \<longleftrightarrow> PARENS c \<or> WHITESPACE c \<or> NUMBERS c \<or> c = quote \<or> LETTERS c"

definition token_ok :: "token \<Rightarrow> bool" where
  "token_ok t =
     (case tok_type t of
        Paren \<Rightarrow> tok_value t = ''('' \<or> tok_value t = '')''
      | Number \<Rightarrow> tok_value t \<noteq> [] \<and> list_all NUMBERS (tok_value t)
      | String \<Rightarrow> quote \<notin> set (tok_value t)
      | Name \<Rightarrow> tok_value t \<noteq> [] \<and> list_all LETTERS (tok_value t))"

section \<open>Printing tokens\<close>

definition lexeme :: "token \<Rightarrow> string" where
  "lexeme t =
     (case tok_type t of
        Paren \<Rightarrow> tok_value t
      | Number \<Rightarrow> tok_value t @ '' ''
      | String \<Rightarrow> quote # tok_value t @ [quote]
      | Name \<Rightarrow> tok_value t @ '' '')"

definition unlex :: "token list \<Rightarrow> string" where
  "unlex ts = concat (map lexeme ts)"

section \<open>Character classes\<close>

lemmas char_class_defs = PARENS_def WHITESPACE_def NUMBERS_def LETTERS_def quote_def less_eq_char_def

lemma class_disjoint:
  "PARENS c \<Longrightarrow> \<not> WHITESPACE c \<and> \<not> NUMBERS c \<and> \<not> LETTERS c \<and> c \<noteq> quote"
  "WHITESPACE c \<Longrightarrow> \<not> PARENS c \<and> \<not> NUMBERS c \<and> \<not> LETTERS c \<and> c \<noteq> quote"
  "NUMBERS c \<Longrightarrow> \<not> PARENS c \<and> \<not> WHITESPACE c \<and> \<not> LETTERS c \<and> c \<noteq> quote"
  "LETTERS c \<Longrightarrow> \<not> PARENS c \<and> \<not> WHITESPACE c \<and> \<not> NUMBERS c \<and> c \<noteq> quote"
  "c = quote \<Longrightarrow> \<not> PARENS c \<and> \<not> WHITESPACE c \<and> \<not> NUMBERS c \<and> \<not> LETTERS c"
  by (auto simp: char_class_defs)

lemma regex_test_undefined [simp]:
  "\<not> regex_test PARENS None" "\<not> regex_test WHITESPACE None"
  "\<not> regex_test NUMBERS None" "regex_test LETTERS None"
  by (simp_all add: regex_test_None PARENS_def WHITESPACE_def NUMBERS_def LETTERS_def)

lemma not_quote_run: "list_all (\<lambda>d. d \<noteq> quote) v \<longleftrightarrow> quote \<notin> set v"
  by (auto simp: list_all_iff)

section \<open>The inner loops, characterised\<close>

lemma scan_loop_unfold:
  "scan_loop test input (v, ch, c) =
     (if test ch then scan_loop test input (v @ to_string ch, js_index input (c + 1), c + 1)
      else Some (v, ch, c))"
  unfolding scan_loop_def by (subst while_option_unfold) simp

lemma scan_loop_returns:
  assumes "dropWhile (\<lambda>x. test (Some x)) (drop c input) \<noteq> [] \<or> \<not> test None"
  shows "scan_loop test input (v, js_index input c, c) =
     Some (v @ takeWhile (\<lambda>x. test (Some x)) (drop c input),
           js_index input (c + length (takeWhile (\<lambda>x. test (Some x)) (drop c input))),
           c + length (takeWhile (\<lambda>x. test (Some x)) (drop c input)))"
  using assms
proof (induction "drop c input" arbitrary: v c)
  case Nil
  then have "length input \<le> c" by simp
  with Nil show ?case by (subst scan_loop_unfold) (auto simp: js_index_def)
next
  case (Cons x xs)
  from Cons.hyps(2) have d: "drop c input = x # xs" by simp
  then have ix: "js_index input c = Some x" and xs: "xs = drop (Suc c) input"
    by (simp_all add: js_index_drop_Cons drop_Suc_of_Cons)
  show ?case
  proof (cases "test (Some x)")
    case True
    with Cons.prems d xs
    have "dropWhile (\<lambda>x. test (Some x)) (drop (Suc c) input) \<noteq> [] \<or> \<not> test None" by auto
    from Cons.hyps(1) [OF xs this, of "v @ [x]"] True ix d xs
    show ?thesis by (subst scan_loop_unfold) simp
  next
    case False
    with ix d show ?thesis by (subst scan_loop_unfold) simp
  qed
qed

lemma scan_loop_diverges:
  assumes "dropWhile (\<lambda>x. test (Some x)) (drop c input) = []" and "test None"
  shows "scan_loop test input (v, js_index input c, c) = None"
proof (rule ccontr)
  assume "scan_loop test input (v, js_index input c, c) \<noteq> None"
  then obtain t where t: "scan_loop test input (v, js_index input c, c) = Some t" by auto
  let ?P = "\<lambda>(v :: string, ch, k). ch = js_index input k \<and> (\<forall>x \<in> set (drop k input). test (Some x))"
  have step: "?P s \<Longrightarrow> (case s of (value, char, current) \<Rightarrow> test char)" for s
    using assms(2) by (cases s) (auto simp: js_index_drop split: list.splits if_splits)
  have "?P t"
  proof (rule while_option_rule [where P = ?P, OF _ t [unfolded scan_loop_def]])
    show "?P (v, js_index input c, c)" using assms(1) by simp
  next
    fix s assume "?P s" and "case s of (value, char, current) \<Rightarrow> test char"
    then show "?P (case s of (value, char, current) \<Rightarrow>
        (value @ to_string char, js_index input (current + 1), current + 1))"
      by (cases s) (auto dest: in_set_drop_Suc)
  qed
  from step [OF this] while_option_stop [OF t [unfolded scan_loop_def]] show False by simp
qed

lemma number_loop_run:
  assumes "drop c input = v @ rest" "list_all NUMBERS v" "rest = [] \<or> \<not> NUMBERS (hd rest)"
  shows "number_loop input (w, js_index input c, c) =
    Some (w @ v, js_index input (c + length v), c + length v)"
  using scan_loop_returns [of "regex_test NUMBERS" c input w] run_split [OF assms(2,3)]
  by (simp add: number_loop_def assms(1))

lemma string_loop_run:
  assumes "drop c input = v @ quote # rest" "quote \<notin> set v"
  shows "string_loop input (w, js_index input c, c) = Some (w @ v, Some quote, c + length v)"
  using scan_loop_returns [of "\<lambda>char. char \<noteq> Some quote" c input w]
    run_split [of "\<lambda>d. d \<noteq> quote" v "quote # rest"] drop_add_append [OF assms(1)] assms(2)
  by (simp add: string_loop_def assms(1) not_quote_run js_index_drop_Cons)

lemma string_loop_open:
  assumes "quote \<notin> set (drop c input)"
  shows "string_loop input (w, js_index input c, c) = None"
  using scan_loop_diverges [of "\<lambda>char. char \<noteq> Some quote" c input w] assms
  by (auto simp: string_loop_def)

lemma name_loop_run:
  assumes "drop c input = v @ d # rest" "list_all LETTERS v" "\<not> LETTERS d"
  shows "name_loop input (w, js_index input c, c) = Some (w @ v, Some d, c + length v)"
  using scan_loop_returns [of "regex_test LETTERS" c input w]
    run_split [of LETTERS v "d # rest"] drop_add_append [OF assms(1)] assms(2,3)
  by (simp add: name_loop_def assms(1) js_index_drop_Cons)

lemma name_loop_open:
  assumes "list_all LETTERS (drop c input)"
  shows "name_loop input (w, js_index input c, c) = None"
  using scan_loop_diverges [of "regex_test LETTERS" c input w] assms
  by (simp add: name_loop_def list_all_iff)

section \<open>The outer loop, branch by branch\<close>

lemma tokenizer_loop_end:
  "drop current input = [] \<Longrightarrow> tokenizer_loop input current tokens = Returns tokens"
  by (subst tokenizer_loop.simps) simp

lemma step_loop:
  "tokenizer_step input (current, tokens) (current', tokens') \<Longrightarrow>
   tokenizer_loop input current tokens = tokenizer_loop input current' tokens'"
  by (erule tokenizer_stepE; subst tokenizer_loop.simps; simp)

lemma step_paren:
  "drop current input = c # cs \<Longrightarrow> PARENS c \<Longrightarrow>
   tokenizer_step input (current, tokens) (current + 1, tokens @ [Token Paren [c]])"
  using Paren [of current input "Some c" tokens] by (simp add: drop_eq_Cons_iff)

lemma step_space:
  "drop current input = c # cs \<Longrightarrow> WHITESPACE c \<Longrightarrow>
   tokenizer_step input (current, tokens) (current + 1, tokens)"
  using Space [of current input "Some c" tokens] class_disjoint(2) [of c]
  by (simp add: drop_eq_Cons_iff)

lemma step_number:
  assumes "drop current input = c # v @ rest" "NUMBERS c" "list_all NUMBERS v"
    "rest = [] \<or> \<not> NUMBERS (hd rest)"
  shows "tokenizer_step input (current, tokens)
    (current + length (c # v), tokens @ [Token Number (c # v)])"
proof -
  from assms(1) have ix: "js_index input current = Some c" and lt: "current < length input"
    by (simp_all add: js_index_drop_Cons drop_eq_Cons_iff)
  from number_loop_run [of current input "c # v" rest "[]"] assms ix
  have "number_loop input ([], Some c, current) =
      Some (c # v, js_index input (current + length (c # v)), current + length (c # v))"
    by simp
  with assms(2) class_disjoint(3) [of c] ix lt show ?thesis
    by (intro Number [of current input "Some c"]) simp_all
qed

lemma step_string:
  assumes "drop current input = quote # v @ quote # rest" "quote \<notin> set v"
  shows "tokenizer_step input (current, tokens) (current + length v + 2, tokens @ [Token String v])"
proof -
  from assms(1) have ix: "js_index input current = Some quote" and lt: "current < length input"
    and d: "drop (Suc current) input = v @ quote # rest"
    by (simp_all add: js_index_drop_Cons drop_eq_Cons_iff)
  from string_loop_run [OF d assms(2), of "[]"] class_disjoint(5) [of quote] ix lt
  have "tokenizer_step input (current, tokens) (Suc current + length v + 1, tokens @ [Token String v])"
    by (intro Str [of current input "Some quote"]) simp_all
  then show ?thesis by simp
qed

lemma step_name:
  assumes "drop current input = c # v @ d # rest" "LETTERS c" "list_all LETTERS v" "\<not> LETTERS d"
  shows "tokenizer_step input (current, tokens)
    (current + length (c # v) + 1, tokens @ [Token Name (c # v)])"
proof -
  from assms(1) have ix: "js_index input current = Some c" and lt: "current < length input"
    by (simp_all add: js_index_drop_Cons drop_eq_Cons_iff)
  from name_loop_run [of current input "c # v" d rest "[]"] assms ix
  have "name_loop input ([], Some c, current) = Some (c # v, Some d, current + length (c # v))"
    by simp
  with assms(2) class_disjoint(4) [of c] ix lt show ?thesis
    by (intro Name [of current input "Some c"]) simp_all
qed

lemma tokenizer_loop_paren:
  assumes "drop current input = c # cs" "PARENS c"
  shows "tokenizer_loop input current tokens =
    tokenizer_loop input (current + 1) (tokens @ [Token Paren [c]])"
  by (rule step_loop [OF step_paren [OF assms]])

lemma tokenizer_loop_whitespace:
  assumes "drop current input = c # cs" "WHITESPACE c"
  shows "tokenizer_loop input current tokens = tokenizer_loop input (current + 1) tokens"
  by (rule step_loop [OF step_space [OF assms]])

lemma tokenizer_loop_number:
  assumes "drop current input = c # v @ rest" "NUMBERS c" "list_all NUMBERS v"
    "rest = [] \<or> \<not> NUMBERS (hd rest)"
  shows "tokenizer_loop input current tokens =
    tokenizer_loop input (current + length (c # v)) (tokens @ [Token Number (c # v)])"
  by (rule step_loop [OF step_number [OF assms]])

lemma tokenizer_loop_string:
  assumes "drop current input = quote # v @ quote # rest" "quote \<notin> set v"
  shows "tokenizer_loop input current tokens =
    tokenizer_loop input (current + length v + 2) (tokens @ [Token String v])"
  by (rule step_loop [OF step_string [OF assms]])

lemma tokenizer_loop_string_open:
  assumes "drop current input = quote # cs" "quote \<notin> set cs"
  shows "tokenizer_loop input current tokens = Diverges"
proof -
  from assms(1) have ix: "js_index input current = Some quote" and lt: "current < length input"
    and d: "drop (Suc current) input = cs"
    by (simp_all add: js_index_drop_Cons drop_eq_Cons_iff)
  from string_loop_open [of "Suc current" input "[]"] d assms(2) class_disjoint(5) [of quote] ix lt
  show ?thesis by (subst tokenizer_loop.simps) simp
qed

lemma tokenizer_loop_name:
  assumes "drop current input = c # v @ d # rest" "LETTERS c" "list_all LETTERS v" "\<not> LETTERS d"
  shows "tokenizer_loop input current tokens =
    tokenizer_loop input (current + length (c # v) + 1) (tokens @ [Token Name (c # v)])"
  by (rule step_loop [OF step_name [OF assms]])

lemma tokenizer_loop_name_open:
  assumes "drop current input = c # v" "LETTERS c" "list_all LETTERS v"
  shows "tokenizer_loop input current tokens = Diverges"
proof -
  from assms(1) have ix: "js_index input current = Some c" and lt: "current < length input"
    by (simp_all add: js_index_drop_Cons drop_eq_Cons_iff)
  from name_loop_open [of current input "[]"] assms ix
  have "name_loop input ([], Some c, current) = None" by simp
  with assms(2) class_disjoint(4) [of c] ix lt show ?thesis
    by (subst tokenizer_loop.simps) simp
qed

lemma tokenizer_loop_unknown:
  assumes "drop current input = c # cs" "\<not> known_char c"
  shows "tokenizer_loop input current tokens =
    Throws (unknown_character (Some c))"
  using assms by (subst tokenizer_loop.simps) (simp add: drop_eq_Cons_iff known_char_def)

lemmas tokenizer_loop_branch = tokenizer_loop_end tokenizer_loop_paren tokenizer_loop_whitespace
  tokenizer_loop_number tokenizer_loop_string tokenizer_loop_string_open tokenizer_loop_name
  tokenizer_loop_name_open tokenizer_loop_unknown

section \<open>The reference definition, one lexeme at a time\<close>

lemma lex_paren: "PARENS c \<Longrightarrow> lex (c # rest) = map_outcome ((#) (Token Paren [c])) (lex rest)"
  by simp

lemma lex_whitespace: "WHITESPACE c \<Longrightarrow> lex (c # rest) = lex rest"
  using class_disjoint(2) [of c] by simp

lemma lex_number:
  assumes "NUMBERS c" "list_all NUMBERS v" "rest = [] \<or> \<not> NUMBERS (hd rest)"
  shows "lex (c # v @ rest) = map_outcome ((#) (Token Number (c # v))) (lex rest)"
  using assms(1) class_disjoint(3) [of c] run_split [OF assms(2,3)] by simp

lemma lex_number_end:
  "NUMBERS c \<Longrightarrow> list_all NUMBERS v \<Longrightarrow> lex (c # v) = Returns [Token Number (c # v)]"
  using lex_number [of c v "[]"] by simp

lemma lex_string:
  assumes "quote \<notin> set v"
  shows "lex (quote # v @ quote # rest) = map_outcome ((#) (Token String v)) (lex rest)"
  using run_split [of "\<lambda>d. d \<noteq> quote" v "quote # rest"] assms class_disjoint(5) [of quote]
  by (simp add: not_quote_run)

lemma lex_string_open: "quote \<notin> set cs \<Longrightarrow> lex (quote # cs) = Diverges"
proof -
  assume "quote \<notin> set cs"
  then have dw: "dropWhile (\<lambda>d. d \<noteq> quote) cs = []" by auto
  from class_disjoint(5) [of quote] show ?thesis by (simp add: dw)
qed

lemma lex_name:
  assumes "LETTERS c" "list_all LETTERS v" "\<not> LETTERS d"
  shows "lex (c # v @ d # rest) = map_outcome ((#) (Token Name (c # v))) (lex rest)"
  using assms(1) class_disjoint(4) [of c] run_split [OF assms(2), of "d # rest"] assms(3) by simp

lemma lex_name_open:
  assumes "LETTERS c" "list_all LETTERS v"
  shows "lex (c # v) = Diverges"
proof -
  from assms(2) have dw: "dropWhile LETTERS v = []" by (simp add: list_all_iff)
  from assms(1) class_disjoint(4) [of c] show ?thesis by (simp add: dw)
qed

lemma lex_unknown:
  "\<not> known_char c \<Longrightarrow>
   lex (c # rest) = Throws (unknown_character (Some c))"
  by (simp add: known_char_def)

declare lex.simps(2) [simp del]

lemmas lex_lexeme = lex_paren lex_whitespace lex_number lex_number_end lex_string lex_string_open
  lex_name lex_name_open lex_unknown

lemma lexeme_cases [case_names Paren Space Number Unclosed Str Unfinished Name Unknown]:
  obtains "PARENS c" | "WHITESPACE c"
  | v rest where "NUMBERS c" "cs = v @ rest" "list_all NUMBERS v" "rest = [] \<or> \<not> NUMBERS (hd rest)"
  | "c = quote" "quote \<notin> set cs"
  | v rest where "c = quote" "cs = v @ quote # rest" "quote \<notin> set v"
  | "LETTERS c" "list_all LETTERS cs"
  | v d rest where "LETTERS c" "cs = v @ d # rest" "list_all LETTERS v" "\<not> LETTERS d"
  | "\<not> known_char c"
proof -
  consider "PARENS c" | "WHITESPACE c" | (num) "NUMBERS c" | (str) "c = quote"
    | (name) "LETTERS c" | "\<not> known_char c"
    by (auto simp: known_char_def)
  then show ?thesis
  proof cases
    case num
    with that(3) run_decompose [of cs NUMBERS] show ?thesis by metis
  next
    case str
    obtain v rest where d: "cs = v @ rest" "list_all (\<lambda>d. d \<noteq> quote) v"
      "rest = [] \<or> \<not> hd rest \<noteq> quote"
      by (rule run_decompose [of cs "\<lambda>d. d \<noteq> quote"])
    with str that(4) [OF str] that(5) [OF str, of v "tl rest"] show ?thesis
      by (cases rest) (auto simp: not_quote_run)
  next
    case name
    obtain v rest where d: "cs = v @ rest" "list_all LETTERS v" "rest = [] \<or> \<not> LETTERS (hd rest)"
      by (rule run_decompose [of cs LETTERS])
    with name that(6) [OF name] that(7) [OF name, of v "hd rest" "tl rest"] show ?thesis
      by (cases rest) auto
  qed (use that in blast)+
qed

lemma lex_induct [case_names Nil Paren Space Number Unclosed Str Unfinished Name Unknown]:
  assumes "P []"
    and "\<And>c cs. PARENS c \<Longrightarrow> P cs \<Longrightarrow> P (c # cs)"
    and "\<And>c cs. WHITESPACE c \<Longrightarrow> P cs \<Longrightarrow> P (c # cs)"
    and "\<And>c v rest. NUMBERS c \<Longrightarrow> list_all NUMBERS v \<Longrightarrow> rest = [] \<or> \<not> NUMBERS (hd rest) \<Longrightarrow>
           P rest \<Longrightarrow> P (c # v @ rest)"
    and "\<And>cs. quote \<notin> set cs \<Longrightarrow> P (quote # cs)"
    and "\<And>v rest. quote \<notin> set v \<Longrightarrow> P rest \<Longrightarrow> P (quote # v @ quote # rest)"
    and "\<And>c v. LETTERS c \<Longrightarrow> list_all LETTERS v \<Longrightarrow> P (c # v)"
    and "\<And>c v d rest. LETTERS c \<Longrightarrow> list_all LETTERS v \<Longrightarrow> \<not> LETTERS d \<Longrightarrow> P rest \<Longrightarrow>
           P (c # v @ d # rest)"
    and "\<And>c cs. \<not> known_char c \<Longrightarrow> P (c # cs)"
  shows "P input"
proof (induction input rule: length_induct)
  case (1 xs)
  then have IH: "length ys < length xs \<Longrightarrow> P ys" for ys by blast
  show ?case
  proof (cases xs)
    case Nil
    with assms(1) show ?thesis by simp
  next
    case (Cons c cs)
    show ?thesis unfolding Cons
    proof (cases rule: lexeme_cases [where c = c and cs = cs])
      case (Number v rest)
      with IH [of rest] Cons assms(4) [of c v rest] show "P (c # cs)" by simp
    next
      case (Str v rest)
      with IH [of rest] Cons assms(6) [of v rest] show "P (c # cs)" by simp
    next
      case (Name v d rest)
      with IH [of rest] Cons assms(8) [of c v d rest] show "P (c # cs)" by simp
    qed (use IH [of cs] Cons assms in auto)
  qed
qed

section \<open>The loops compute the reference definition\<close>

lemma tokenizer_loop_lex:
  "drop current input = xs \<Longrightarrow>
   tokenizer_loop input current tokens = map_outcome ((@) tokens) (lex xs)"
proof (induction xs arbitrary: current tokens rule: lex_induct)
  case (Number c v rest)
  from Number.prems have "drop (current + length (c # v)) input = rest"
    using drop_add_append [of current input "c # v" rest] by simp
  from Number.IH [OF this] Number.hyps Number.prems show ?case
    by (simp add: tokenizer_loop_number lex_number map_outcome_append_snoc)
next
  case (Str v rest)
  from Str.prems have "drop (current + length v + 2) input = rest"
    using drop_add_append [of current input "quote # v @ [quote]" rest] by simp
  from Str.IH [OF this] Str.hyps Str.prems show ?case
    by (simp add: tokenizer_loop_string lex_string map_outcome_append_snoc)
next
  case (Name c v d rest)
  from Name.prems have "drop (current + length (c # v) + 1) input = rest"
    using drop_add_append [of current input "c # v @ [d]" rest] by simp
  from Name.IH [OF this] Name.hyps Name.prems show ?case
    by (simp add: tokenizer_loop_name lex_name map_outcome_append_snoc)
next
  case (Paren c cs)
  from Paren.IH [of "current + 1"] Paren.hyps Paren.prems show ?case
    by (simp add: tokenizer_loop_paren [of current input c cs] lex_paren drop_Suc_of_Cons
        map_outcome_append_snoc)
next
  case (Space c cs)
  from Space.IH [of "current + 1"] Space.hyps Space.prems show ?case
    by (simp add: tokenizer_loop_whitespace [of current input c cs] lex_whitespace drop_Suc_of_Cons)
qed (simp_all add: tokenizer_loop_branch lex_lexeme)

lemma tokenizer_eq_lex: "tokenizer input = lex input"
  by (simp add: tokenizer_def tokenizer_loop_lex)

lemmas tokenizer_eval = tokenizer_eq_lex lex.simps char_class_defs

section \<open>Properties of the token list\<close>

lemma lex_tokens_ok: "lex input = Returns ts \<Longrightarrow> list_all token_ok ts"
  by (induction input arbitrary: ts rule: lex_induct)
    (auto simp: lex_lexeme token_ok_def PARENS_def)

lemma lex_subseq: "lex input = Returns ts \<Longrightarrow> subseq (concat (map tok_value ts)) input"
proof (induction input arbitrary: ts rule: lex_induct)
  case (Number c v rest)
  then show ?case by (auto simp: lex_lexeme subseq_append')
next
  case (Str v rest)
  then show ?case by (auto simp: lex_lexeme subseq_append' list_emb_Cons)
next
  case (Name c v d rest)
  then show ?case by (auto simp: lex_lexeme subseq_append' list_emb_Cons)
qed (auto simp: lex_lexeme list_emb_Cons)

lemma lex_trailing_letter:
  "input \<noteq> [] \<Longrightarrow> LETTERS (last input) \<Longrightarrow> lex input \<noteq> Returns ts"
proof (induction input arbitrary: ts rule: lex_induct)
  case (Paren c cs)
  with class_disjoint(1) [of c] show ?case by (auto simp: lex_lexeme split: if_splits)
next
  case (Space c cs)
  with class_disjoint(2) [of c] show ?case by (auto simp: lex_lexeme split: if_splits)
next
  case (Number c v rest)
  have "\<not> LETTERS (last (c # v))"
    using Number.hyps(1,2) class_disjoint(3) [of "last (c # v)"] list_all_last [of NUMBERS "c # v"]
    by simp
  with Number show ?case by (cases "rest = []") (auto simp: lex_lexeme)
next
  case (Str v rest)
  with class_disjoint(5) [of quote] show ?case by (cases "rest = []") (auto simp: lex_lexeme)
next
  case (Name c v d rest)
  then show ?case by (cases "rest = []") (auto simp: lex_lexeme)
qed (auto simp: lex_lexeme)

lemma lex_terminates_no_quote:
  "quote \<notin> set input \<Longrightarrow> input = [] \<or> \<not> LETTERS (last input) \<Longrightarrow> lex input \<noteq> Diverges"
proof (induction input rule: lex_induct)
  case (Unfinished c v)
  then have "LETTERS (last (c # v))" using list_all_last [of LETTERS "c # v"] by simp
  with Unfinished show ?case by simp
next
  case (Name c v d rest)
  then show ?case by (cases "rest = []") (auto simp: lex_lexeme)
next
  case (Number c v rest)
  then show ?case by (cases "rest = []") (auto simp: lex_lexeme)
qed (auto simp: lex_lexeme split: if_splits)

lemma lex_throws:
  "lex input = Throws e \<Longrightarrow>
   \<exists>c \<in> set input. \<not> known_char c \<and> e = unknown_character (Some c)"
  by (induction input rule: lex_induct) (auto simp: lex_lexeme)

lemma lex_known_chars: "list_all known_char input \<Longrightarrow> lex input \<noteq> Throws e"
  using lex_throws [of input e] by (auto simp: list_all_iff)

lemma lex_lexeme_Cons:
  "token_ok t \<Longrightarrow> lex (lexeme t @ rest) = map_outcome ((#) t) (lex rest)"
proof (cases "tok_type t")
  case Paren
  moreover assume "token_ok t"
  ultimately have "tok_value t = ''('' \<or> tok_value t = '')''" by (simp add: token_ok_def)
  with Paren show ?thesis
    by (cases t) (auto simp: lexeme_def lex_paren PARENS_def)
next
  case Number
  moreover assume "token_ok t"
  ultimately obtain c v where "tok_value t = c # v" "NUMBERS c" "list_all NUMBERS v"
    by (cases "tok_value t") (auto simp: token_ok_def)
  with Number lex_number [of c v "CHR '' '' # rest"] show ?thesis
    by (cases t) (simp add: lexeme_def lex_whitespace NUMBERS_def WHITESPACE_def)
next
  case String
  moreover assume "token_ok t"
  ultimately have "quote \<notin> set (tok_value t)" by (simp add: token_ok_def)
  with String lex_string [of "tok_value t" rest] show ?thesis
    by (cases t) (simp add: lexeme_def)
next
  case Name
  moreover assume "token_ok t"
  ultimately obtain c v where "tok_value t = c # v" "LETTERS c" "list_all LETTERS v"
    by (cases "tok_value t") (auto simp: token_ok_def)
  with Name lex_name [of c v "CHR '' ''" rest] show ?thesis
    by (cases t) (simp add: lexeme_def char_class_defs)
qed

lemma lex_unlex: "list_all token_ok ts \<Longrightarrow> lex (unlex ts) = Returns ts"
  by (induction ts) (simp_all add: unlex_def lex_lexeme_Cons)

lemma lex_unlex_append:
  "list_all token_ok ts \<Longrightarrow> lex (unlex ts @ rest) = map_outcome ((@) ts) (lex rest)"
proof (induction ts)
  case (Cons t ts)
  then show ?case
    using lex_lexeme_Cons [of t "unlex ts @ rest"]
    by (simp add: unlex_def map_outcome_comp comp_def)
qed (simp add: unlex_def map_outcome_ext)

section \<open>The tokenizer's properties\<close>

text \<open>
  Claim C1. The cursor-based loops of \<^verbatim>\<open>tokenizer\<close> compute the reference definition:
  from any cursor position and any list of tokens pushed so far, the outer loop
  returns, throws or runs forever exactly as \<open>lex\<close> does on the rest of the input, and
  the tokens it returns are those pushed so far followed by those of \<open>lex\<close>.
\<close>

theorem tokenizer_refines_lex:
  "tokenizer_loop input current tokens = map_outcome ((@) tokens) (lex (drop current input)) \<and>
   tokenizer input = lex input"
  by (simp add: tokenizer_loop_lex tokenizer_eq_lex)

text \<open>
  Claim C7. \<^verbatim>\<open>tokenizer\<close> never returns on an input that ends in a letter: when all
  characters of the input are ones it recognises, it runs forever (the loop at lines 62
  to 65 tests \<^verbatim>\<open>LETTERS.test(undefined)\<close>, which holds since \<^verbatim>\<open>"undefined"\<close> has
  letters), and otherwise it can only throw. "Forever" is for strings of any length:
  an engine leaves the loop with a \<^verbatim>\<open>RangeError\<close> when \<^verbatim>\<open>value\<close> has grown to the greatest
  length of a string; that the call does not return holds there too.
\<close>

theorem tokenizer_hangs_on_trailing_letter:
  assumes "input \<noteq> []" and "LETTERS (last input)"
  shows "tokenizer input \<noteq> Returns ts \<and> (list_all known_char input \<longrightarrow> tokenizer input = Diverges)"
proof (intro conjI impI)
  from assms show r: "tokenizer input \<noteq> Returns ts" for ts
    by (simp add: tokenizer_eq_lex lex_trailing_letter)
  assume "list_all known_char input"
  then have "tokenizer input \<noteq> Throws e" for e
    by (simp add: tokenizer_eq_lex lex_known_chars)
  with r show "tokenizer input = Diverges"
    by (cases "tokenizer input" rule: option.exhaust; cases "the (tokenizer input)") auto
qed

theorem tokenizer_hangs_on_trailing_letter_witness:
  "''(add 2)a'' \<noteq> [] \<and> LETTERS (last ''(add 2)a'') \<and> list_all known_char ''(add 2)a'' \<and>
   tokenizer ''(add 2)a'' = Diverges"
  using tokenizer_hangs_on_trailing_letter [of "''(add 2)a''"]
  by (simp add: known_char_def char_class_defs)

text \<open>
  Claim C6. The character that ends a name is never looked at: \<^verbatim>\<open>tokenizer\<close> steps
  over it (the \<^verbatim>\<open>current++\<close> at line 72), so replacing it by any other character that
  is not a letter leaves the outcome unchanged, and the tokens are the name followed by
  those of the input after that character.
\<close>

theorem tokenizer_skips_char_after_name:
  assumes "LETTERS c" and "list_all LETTERS v" and "\<not> LETTERS d"
  shows "tokenizer (c # v @ d # rest) = map_outcome ((#) (Token Name (c # v))) (tokenizer rest)"
  using assms by (simp add: tokenizer_eq_lex lex_name)

theorem tokenizer_skips_char_after_name_witness:
  "LETTERS CHR ''a'' \<and> list_all LETTERS ''dd'' \<and> \<not> LETTERS CHR '')'' \<and>
   tokenizer ''add)'' = Returns [Token Name ''add'']"
  using tokenizer_skips_char_after_name [of "CHR ''a''" "''dd''" "CHR '')''" "[]"]
  by (simp add: tokenizer_eval)

text \<open>
  Claim C29. Every token that \<^verbatim>\<open>tokenizer\<close> returns is well formed: a \<^verbatim>\<open>paren\<close> holds
  \<^verbatim>\<open>(\<close> or \<^verbatim>\<open>)\<close>, a \<^verbatim>\<open>number\<close> a non-empty run of digits, a \<^verbatim>\<open>name\<close> a non-empty run
  of letters, and a \<^verbatim>\<open>string\<close> holds no double quote.
\<close>

theorem tokenizer_tokens_ok:
  "tokenizer input = Returns ts \<Longrightarrow> list_all token_ok ts"
  by (simp add: tokenizer_eq_lex lex_tokens_ok)

theorem tokenizer_tokens_ok_witness:
  "tokenizer ''(a 12)'' = Returns [Token Paren ''('', Token Name ''a'', Token Number ''12'', Token Paren '')''] \<and>
   list_all token_ok [Token Paren ''('', Token Name ''a'', Token Number ''12'', Token Paren '')'']"
proof -
  have "tokenizer ''(a 12)'' =
      Returns [Token Paren ''('', Token Name ''a'', Token Number ''12'', Token Paren '')'']"
    by (simp add: tokenizer_eval)
  with tokenizer_tokens_ok [OF this] show ?thesis by simp
qed

text \<open>
  Claim C30. Printing well-formed tokens and tokenizing the text gives the tokens back:
  every well-formed token list is the output of \<^verbatim>\<open>tokenizer\<close> on some input, namely
  the one where each number and each name is followed by a blank.
\<close>

theorem tokenizer_unlex:
  "list_all token_ok ts \<Longrightarrow> tokenizer (unlex ts) = Returns ts"
  by (simp add: tokenizer_eq_lex lex_unlex)

theorem tokenizer_unlex_witness:
  "list_all token_ok [Token Paren ''('', Token Name ''a'', Token String ''b c'', Token Paren '')''] \<and>
   tokenizer (unlex [Token Paren ''('', Token Name ''a'', Token String ''b c'', Token Paren '')'']) =
     Returns [Token Paren ''('', Token Name ''a'', Token String ''b c'', Token Paren '')'']"
  using tokenizer_unlex [of "[Token Paren ''('', Token Name ''a'', Token String ''b c'', Token Paren '')'']"]
  by (simp add: token_ok_def char_class_defs)

text \<open>
  Claim C31. \<^verbatim>\<open>tokenizer\<close> comes to an end (it returns or throws) on every input that
  holds no double quote and does not end in a letter.
\<close>

theorem tokenizer_terminates:
  assumes "quote \<notin> set input" and "input = [] \<or> \<not> LETTERS (last input)"
  shows "\<exists>r. tokenizer input = Some r"
  using lex_terminates_no_quote [OF assms] by (simp add: tokenizer_eq_lex)

theorem tokenizer_terminates_witness:
  "quote \<notin> set ''(a 1)'' \<and> \<not> LETTERS (last ''(a 1)'') \<and> (\<exists>r. tokenizer ''(a 1)'' = Some r)"
  using tokenizer_terminates [of "''(a 1)''"] by (simp add: char_class_defs)

text \<open>
  Claim C39. The only exception of \<^verbatim>\<open>tokenizer\<close> is the \<^verbatim>\<open>TypeError\<close> of line 77, and
  its message names a character of the input that is no parenthesis, white space,
  digit, double quote or letter. This is for strings of any length: the
  \<^verbatim>\<open>RangeError\<close> with which an engine ends one of the two loops that never leave is
  \<open>Diverges\<close> here.
\<close>

theorem tokenizer_throws:
  "tokenizer input = Throws e \<Longrightarrow>
   \<exists>c \<in> set input. \<not> known_char c \<and> e = unknown_character (Some c)"
  by (simp add: tokenizer_eq_lex lex_throws)

theorem tokenizer_throws_witness:
  "tokenizer ''(a @)'' = Throws (TypeError ''I do not know what this character is: @'') \<and>
   (\<exists>c \<in> set ''(a @)''. \<not> known_char c \<and>
      TypeError ''I do not know what this character is: @'' = unknown_character (Some c))"
proof -
  have "tokenizer ''(a @)'' = Throws (TypeError ''I do not know what this character is: @'')"
    by (simp add: tokenizer_eval unknown_character_def)
  with tokenizer_throws [OF this] show ?thesis by simp
qed

text \<open>
  Claim C40. The tokens come in the order of the input: their values, one after the
  other, are a subsequence of the input's characters.
\<close>

theorem tokenizer_keeps_order:
  "tokenizer input = Returns ts \<Longrightarrow> subseq (concat (map tok_value ts)) input"
  by (simp add: tokenizer_eq_lex lex_subseq)

theorem tokenizer_keeps_order_witness:
  "tokenizer ''(a 12)'' = Returns [Token Paren ''('', Token Name ''a'', Token Number ''12'', Token Paren '')''] \<and>
   subseq (concat (map tok_value [Token Paren ''('', Token Name ''a'', Token Number ''12'', Token Paren '')'']))
     ''(a 12)''"
proof -
  have "tokenizer ''(a 12)'' =
      Returns [Token Paren ''('', Token Name ''a'', Token Number ''12'', Token Paren '')'']"
    by (simp add: tokenizer_eval)
  with tokenizer_keeps_order [OF this] show ?thesis by simp
qed

text \<open>
  Claim C32. A string that is not closed makes \<^verbatim>\<open>tokenizer\<close> run forever: after any
  well-formed tokens, a double quote with no second one after it starts the loop of
  lines 45 to 48, which never sees a \<^verbatim>\<open>"\<close> because \<^verbatim>\<open>undefined !== '"'\<close> holds past the
  end of the input. As in the loop of the names, an engine ends this with a
  \<^verbatim>\<open>RangeError\<close> when \<^verbatim>\<open>value\<close> has grown to the greatest length of a string; the model,
  whose strings have any length, has no such end.
\<close>

theorem tokenizer_hangs_on_open_string:
  "list_all token_ok ts \<Longrightarrow> quote \<notin> set cs \<Longrightarrow> tokenizer (unlex ts @ quote # cs) = Diverges"
  by (simp add: tokenizer_eq_lex lex_unlex_append lex_string_open)

theorem tokenizer_hangs_on_open_string_witness:
  "tokenizer (''(add '' @ quote # ''two)'') = Diverges"
  using tokenizer_hangs_on_open_string [of "[Token Paren ''('', Token Name ''add'']" "''two)''"]
  by (simp add: unlex_def lexeme_def token_ok_def char_class_defs quote_def)

end
