(* ===== verification/Tokenizer_Steps.thy ===== *)
theory Tokenizer_Steps
  imports Tokenizer
begin

text \<open>
  The runs of the outer loop of \<^verbatim>\<open>tokenizer\<close> (lines 10 to 78 of
  \<^verbatim>\<open>src/tiny-compiler.js\<close>). A configuration is the pair of \<^verbatim>\<open>current\<close> and \<^verbatim>\<open>tokens\<close>
  at the head of the \<^verbatim>\<open>while\<close>, \<open>tokenizer_step\<close> of theory \<open>Tokenizer\<close> is one
  iteration, and \<open>reachable\<close> are the configurations that a run from \<^verbatim>\<open>current = 0\<close>,
  \<^verbatim>\<open>tokens = []\<close> goes through.

  \<open>step_bound\<close> is what a step does to the cursor, \<open>reachable_invariant\<close> holds by
  induction over the run, \<open>lex_run\<close> builds the run to the end of the input from the
  reference definition, \<open>step_or_stuck\<close> says what happens in a configuration
  before the end of the input, and \<open>run_ends\<close> that every run comes to a configuration
  without a step.
\<close>

section \<open>Runs\<close>

definition reachable :: "string \<Rightarrow> config \<Rightarrow> bool" where
  "reachable input = rtranclp (tokenizer_step input) (0, [])"

section \<open>A run is an unfolding of the loop\<close>

lemma reachable_start [simp]: "reachable input (0, [])"
  by (simp add: reachable_def)

lemma reachable_step:
  "reachable input s \<Longrightarrow> tokenizer_step input s s' \<Longrightarrow> reachable input s'"
  unfolding reachable_def by (rule rtranclp.rtrancl_into_rtrancl)

lemma steps_loop:
  "rtranclp (tokenizer_step input) s s' \<Longrightarrow>
   tokenizer_loop input (fst s) (snd s) = tokenizer_loop input (fst s') (snd s')"
  by (induction rule: rtranclp_induct) (auto dest: step_loop)

lemma step_deterministic:
  "tokenizer_step input s a \<Longrightarrow> tokenizer_step input s b \<Longrightarrow> a = b"
  by (cases s) (auto elim!: tokenizer_stepE)

section \<open>The cursor stays in the input\<close>

lemma scan_loop_SomeD:
  assumes "scan_loop test input (v, js_index input c, c) = Some t"
  shows "t = (v @ takeWhile (\<lambda>x. test (Some x)) (drop c input),
           js_index input (c + length (takeWhile (\<lambda>x. test (Some x)) (drop c input))),
           c + length (takeWhile (\<lambda>x. test (Some x)) (drop c input))) \<and>
     (dropWhile (\<lambda>x. test (Some x)) (drop c input) \<noteq> [] \<or> \<not> test None)"
  using assms scan_loop_returns [of test c input v] scan_loop_diverges [of test c input v]
  by (cases "dropWhile (\<lambda>x. test (Some x)) (drop c input) \<noteq> [] \<or> \<not> test None") auto

lemma scan_loop_bound:
  assumes "scan_loop test input (v, js_index input c, c) = Some (v', ch', c')" "c \<le> length input"
  shows "c \<le> c' \<and> c' \<le> length input \<and> (test None \<longrightarrow> c' < length input) \<and>
    (test (js_index input c) \<longrightarrow> c < c')"
proof -
  let ?P = "\<lambda>x. test (Some x)"
  define n where "n = length (takeWhile ?P (drop c input))"
  define m where "m = length (dropWhile ?P (drop c input))"
  from scan_loop_SomeD [OF assms(1)]
  have c': "c' = c + n" and stop: "dropWhile ?P (drop c input) \<noteq> [] \<or> \<not> test None"
    by (simp_all add: n_def)
  have "n + m = length input - c"
    using arg_cong [OF takeWhile_dropWhile_id [of ?P "drop c input"], of length]
    by (simp only: length_append length_drop n_def m_def)
  moreover from stop have "0 < m" if "test None"
    using that by (cases "dropWhile ?P (drop c input)") (simp_all add: m_def)
  moreover have "0 < n" if "test (js_index input c)"
  proof (cases "drop c input")
    case Nil
    with that stop show ?thesis by (simp add: js_index_drop)
  next
    case (Cons x xs)
    with that show ?thesis by (simp add: js_index_drop n_def)
  qed
  ultimately show ?thesis using c' assms(2) by auto
qed

lemma step_bound:
  assumes "tokenizer_step input (current, tokens) (current', tokens')"
  shows "current < current' \<and> current' \<le> length input"
  using assms
proof (cases rule: tokenizer_step.cases)
  case (Number char v char')
  then show ?thesis
    using scan_loop_bound [of "regex_test NUMBERS" input "[]" current v char' current']
    by (simp add: number_loop_def)
next
  case (Str char v char' c')
  then show ?thesis
    using scan_loop_bound [of "\<lambda>char. char \<noteq> Some quote" input "[]" "current + 1" v char' c']
    by (simp add: string_loop_def)
next
  case (Name char v char' c')
  then show ?thesis
    using scan_loop_bound [of "regex_test LETTERS" input "[]" current v char' c']
    by (simp add: name_loop_def)
qed simp_all

lemma reachable_invariant:
  "reachable input (current, tokens) \<Longrightarrow>
   current \<le> length input \<and> tokenizer_loop input current tokens = tokenizer input"
  unfolding reachable_def
  by (induction rule: rtranclp_induct2) (auto simp: tokenizer_def dest: step_bound step_loop)

lemma step_tokens:
  assumes "tokenizer_step input (current, tokens) (current', tokens')"
  shows "length tokens' + current \<le> length tokens + current'"
  using step_bound [OF assms] assms by (auto elim!: tokenizer_stepE)

lemma reachable_tokens_bound: "reachable input (current, tokens) \<Longrightarrow> length tokens \<le> current"
  unfolding reachable_def
  by (induction rule: rtranclp_induct2) (auto dest!: step_tokens)

lemma run_length:
  "(tokenizer_step input ^^ n) (0, []) (current, tokens) \<Longrightarrow> n \<le> current"
proof (induction n arbitrary: current tokens)
  case (Suc n)
  then obtain c ts where "(tokenizer_step input ^^ n) (0, []) (c, ts)"
    and "tokenizer_step input (c, ts) (current, tokens)"
    by auto
  with Suc.IH [of c ts] step_bound [of input c ts current tokens] show ?case by simp
qed simp

section \<open>The run to the end of the input\<close>

lemma run_step:
  assumes "tokenizer_step input (current, tokens) (current', tokens @ new)"
    and "drop current' input = rest \<Longrightarrow> current' \<le> length input \<Longrightarrow>
      rtranclp (tokenizer_step input) (current', tokens @ new) (length input, (tokens @ new) @ new')"
    and "drop current input = pre @ rest" and "current \<le> length input"
    and "current' = current + length pre"
  shows "rtranclp (tokenizer_step input) (current, tokens) (length input, tokens @ new @ new')"
  using assms drop_past [OF assms(3,4)] by (simp add: converse_rtranclp_into_rtranclp)

lemma lex_run:
  "drop current input = xs \<Longrightarrow> current \<le> length input \<Longrightarrow> lex xs = Returns new \<Longrightarrow>
   rtranclp (tokenizer_step input) (current, tokens) (length input, tokens @ new)"
proof (induction xs arbitrary: current tokens new rule: lex_induct)
  case Nil
  then show ?case by simp
next
  case (Paren c cs)
  from Paren.prems(3) Paren.hyps obtain new' where new: "new = Token Paren [c] # new'" "lex cs = Returns new'"
    by (auto simp: lex_paren)
  from run_step [OF step_paren [OF Paren.prems(1) Paren.hyps] Paren.IH [OF _ _ new(2)], where pre = "[c]"] Paren.prems(1,2)
  show ?case by (simp add: new(1))
next
  case (Space c cs)
  from Space.prems(3) Space.hyps have new: "lex cs = Returns new" by (simp add: lex_whitespace)
  from run_step [of input current tokens _ "[]", OF _ Space.IH [OF _ _ new], where pre = "[c]"]
    step_space [OF Space.prems(1) Space.hyps, of tokens] Space.prems(1,2)
  show ?case by simp
next
  case (Number c v rest)
  from Number.prems(3) Number.hyps obtain new' where new: "new = Token Number (c # v) # new'" "lex rest = Returns new'"
    by (auto simp: lex_number)
  from run_step [OF step_number [OF Number.prems(1) Number.hyps(1-3)] Number.IH [OF _ _ new(2)], where pre = "c # v"]
    Number.prems(1,2)
  show ?case by (simp add: new(1))
next
  case (Str v rest)
  from Str.prems(3) Str.hyps obtain new' where new: "new = Token String v # new'" "lex rest = Returns new'"
    by (auto simp: lex_string)
  from run_step [OF step_string [OF Str.prems(1) Str.hyps(1)] Str.IH [OF _ _ new(2)], where pre = "quote # v @ [quote]"]
    Str.prems(1,2)
  show ?case by (simp add: new(1))
next
  case (Name c v d rest)
  from Name.prems(3) Name.hyps obtain new' where new: "new = Token Name (c # v) # new'" "lex rest = Returns new'"
    by (auto simp: lex_name)
  from run_step [OF step_name [OF Name.prems(1) Name.hyps(1-3)] Name.IH [OF _ _ new(2)], where pre = "c # v @ [d]"]
    Name.prems(1,2)
  show ?case by (simp add: new(1))
qed (simp_all add: lex_lexeme)

lemma tokenizer_returns_reachable:
  "tokenizer input = Returns ts \<longleftrightarrow> reachable input (length input, ts)"
  using lex_run [of 0 input input ts "[]"] reachable_invariant [of input "length input" ts]
  by (auto simp: reachable_def tokenizer_eq_lex tokenizer_loop_end)

section \<open>A configuration before the end of the input\<close>

lemma step_or_stuck:
  assumes "current < length input"
  shows "(\<exists>next_config. tokenizer_step input (current, tokens) next_config)
    \<or> \<not> known_char (input ! current) \<and>
      tokenizer_loop input current tokens = Throws (unknown_character (Some (input ! current)))
    \<or> tokenizer_loop input current tokens = Diverges \<and>
      (input ! current = quote \<and> quote \<notin> set (drop (Suc current) input)
       \<or> list_all LETTERS (drop current input))"
proof -
  define c cs where "c = input ! current" and "cs = drop (Suc current) input"
  with assms have d: "drop current input = c # cs" by (simp add: Cons_nth_drop_Suc)
  show ?thesis
  proof (cases rule: lexeme_cases [where c = c and cs = cs])
    case Paren from step_paren [OF d this] show ?thesis by blast
  next
    case Space from step_space [OF d this] show ?thesis by blast
  next
    case (Number v rest) from step_number [OF d [unfolded Number(2)] Number(1,3,4)] show ?thesis by blast
  next
    case Unclosed with tokenizer_loop_string_open [OF d [unfolded Unclosed(1)]] show ?thesis
      by (simp add: c_def cs_def)
  next
    case (Str v rest) from step_string [OF d [unfolded Str(1,2)] Str(3)] show ?thesis by blast
  next
    case Unfinished with tokenizer_loop_name_open [OF d] d show ?thesis by simp
  next
    case (Name v d' rest) from step_name [OF d [unfolded Name(2)] Name(1,3,4)] show ?thesis by blast
  next
    case Unknown with tokenizer_loop_unknown [OF d] show ?thesis by (simp add: c_def)
  qed
qed

lemma run_ends:
  assumes "reachable input (current, tokens)"
  shows "\<exists>current' tokens'. reachable input (current', tokens') \<and>
    (current' < length input \<longrightarrow> (\<forall>next_config. \<not> tokenizer_step input (current', tokens') next_config))"
  using assms
proof (induction "length input - current" arbitrary: current tokens rule: less_induct)
  case less
  show ?case
  proof (cases "\<exists>next_config. tokenizer_step input (current, tokens) next_config")
    case True
    then obtain current' tokens' where step: "tokenizer_step input (current, tokens) (current', tokens')"
      by auto
    from step_bound [OF step] have "length input - current' < length input - current" by arith
    from less.hyps [OF this reachable_step [OF less.prems step]] show ?thesis .
  next
    case False
    with less.prems show ?thesis by blast
  qed
qed

lemma tokenizer_outcome_run:
  "(\<exists>ts. tokenizer input = Returns ts \<and> reachable input (length input, ts))
   \<or> (\<exists>current tokens. reachable input (current, tokens) \<and> current < length input \<and>
        \<not> known_char (input ! current) \<and>
        tokenizer input = Throws (unknown_character (Some (input ! current))))
   \<or> (\<exists>current tokens. reachable input (current, tokens) \<and> current < length input \<and>
        tokenizer input = Diverges \<and>
        (input ! current = quote \<and> quote \<notin> set (drop (Suc current) input)
         \<or> list_all LETTERS (drop current input)))"
proof -
  from run_ends [OF reachable_start, of input] obtain current tokens
    where run: "reachable input (current, tokens)"
      and last: "current < length input \<Longrightarrow> \<not> tokenizer_step input (current, tokens) next_config"
    for next_config by blast
  show ?thesis
  proof (cases "current < length input")
    case True
    with step_or_stuck [OF True, of tokens] last reachable_invariant [OF run] run
    show ?thesis by (simp add: tokenizer_def) blast
  next
    case False
    with reachable_invariant [OF run] run show ?thesis by (auto simp: tokenizer_loop_end)
  qed
qed

lemma reachable_unknown:
  assumes "reachable input (current, tokens)" and "current < length input"
    and "\<not> known_char (input ! current)"
  shows "tokenizer input = Throws (unknown_character (Some (input ! current)))"
  using assms reachable_invariant [OF assms(1)]
    tokenizer_loop_unknown [of current input "input ! current" "drop (Suc current) input" tokens]
  by (simp add: Cons_nth_drop_Suc)

lemma reachable_hangs:
  assumes "reachable input (current, tokens)" and "current < length input"
    and "input ! current = quote \<and> quote \<notin> set (drop (Suc current) input)
      \<or> list_all LETTERS (drop current input)"
  shows "tokenizer input = Diverges"
proof -
  from assms(2) have "drop current input = input ! current # drop (Suc current) input"
    by (simp add: Cons_nth_drop_Suc)
  with assms(3) tokenizer_loop_string_open [of current input "drop (Suc current) input" tokens]
    tokenizer_loop_name_open [of current input "input ! current" "drop (Suc current) input" tokens]
  have "tokenizer_loop input current tokens = Diverges" by auto
  with reachable_invariant [OF assms(1)] show ?thesis by simp
qed

section \<open>The loop and its runs\<close>

text \<open>
  Claim C12. An invariant of the outer loop: whenever the \<^verbatim>\<open>while\<close> tests its condition,
  \<^verbatim>\<open>current\<close> is at most \<^verbatim>\<open>input.length\<close>, there are at most \<^verbatim>\<open>current\<close> tokens,
  and the result of the whole call is the tokens pushed so far followed by the tokens
  of the rest of the input. The \<^verbatim>\<open>current++\<close> after a string and after a name never
  steps past the end, because the loops before them only return on a character of
  the input. (The number of iterations is not part of this statement: by lemma
  \<open>run_length\<close> a run of \<open>n\<close> iterations ends with \<open>n \<le> current\<close>.)
\<close>

theorem tokenizer_cursor_invariant:
  "reachable input (current, tokens) \<Longrightarrow>
   length tokens \<le> current \<and> current \<le> length input \<and>
   tokenizer_loop input current tokens = tokenizer input \<and>
   tokenizer input = map_outcome ((@) tokens) (lex (drop current input))"
  using reachable_invariant [of input current tokens] tokenizer_loop_lex [of current input _ tokens]
    reachable_tokens_bound [of input current tokens]
  by auto

theorem tokenizer_cursor_invariant_witness:
  "length [Token Paren ''('', Token Name ''a''] \<le> (3::nat) \<and> (3::nat) \<le> length ''(a 1'' \<and>
   tokenizer_loop ''(a 1'' 3 [Token Paren ''('', Token Name ''a''] = tokenizer ''(a 1'' \<and>
   tokenizer ''(a 1'' = map_outcome ((@) [Token Paren ''('', Token Name ''a'']) (lex (drop 3 ''(a 1''))"
proof -
  have "tokenizer_step ''(a 1'' (0, []) (1, [Token Paren ''(''])"
    using step_paren [of 0 "''(a 1''" "CHR ''(''" "''a 1''" "[]"] by (simp add: PARENS_def)
  moreover have "tokenizer_step ''(a 1'' (1, [Token Paren ''('']) (3, [Token Paren ''('', Token Name ''a''])"
    using step_name [of 1 "''(a 1''" "CHR ''a''" "[]" "CHR '' ''" "''1''" "[Token Paren ''('']"]
    by (simp add: char_class_defs numeral_3_eq_3)
  ultimately have "reachable ''(a 1'' (3, [Token Paren ''('', Token Name ''a''])"
    unfolding reachable_def by (meson rtranclp.rtrancl_into_rtrancl rtranclp.rtrancl_refl)
  from tokenizer_cursor_invariant [OF this] show ?thesis by simp
qed

text \<open>
  Claim C20. The loop and the transition system agree on every outcome. Every run of
  the iterations is finite, since each one moves \<^verbatim>\<open>current\<close> forward, and it ends in
  one of three ways: \<^verbatim>\<open>tokenizer\<close> returns a list of tokens exactly when a run reaches
  the end of the input with that list as \<^verbatim>\<open>tokens\<close>; it throws exactly when a run
  reaches a character outside the five classes, and the error names that character;
  it does not return exactly when a run reaches a double quote that nothing closes
  or letters that go on to the end of the input.
\<close>

theorem tokenizer_outcome_iff_run:
  "(tokenizer input = Returns ts \<longleftrightarrow> reachable input (length input, ts)) \<and>
   (tokenizer input = Throws e \<longleftrightarrow>
      (\<exists>current tokens. reachable input (current, tokens) \<and> current < length input \<and>
         \<not> known_char (input ! current) \<and> e = unknown_character (Some (input ! current)))) \<and>
   (tokenizer input = Diverges \<longleftrightarrow>
      (\<exists>current tokens. reachable input (current, tokens) \<and> current < length input \<and>
         (input ! current = quote \<and> quote \<notin> set (drop (Suc current) input)
          \<or> list_all LETTERS (drop current input))))"
  using tokenizer_outcome_run [of input]
  by (auto simp: tokenizer_returns_reachable [symmetric] dest: reachable_unknown reachable_hangs)

theorem tokenizer_outcome_iff_run_witness:
  "tokenizer ''(a'' = Diverges"
proof -
  have "tokenizer_step ''(a'' (0, []) (1, [Token Paren ''(''])"
    using step_paren [of 0 "''(a''" "CHR ''(''" "''a''" "[]"] by (simp add: PARENS_def)
  then have "reachable ''(a'' (1, [Token Paren ''(''])"
    by (rule reachable_step [OF reachable_start])
  with tokenizer_outcome_iff_run [of "''(a''"] show ?thesis
    by (auto simp: char_class_defs)
qed

text \<open>
  Claim C13. Every iteration of the outer loop is accounted for: in a configuration
  that a run reaches before the end of the input, either the body of the loop takes a
  step, or the character at \<^verbatim>\<open>current\<close> is none that the tokenizer knows and the call
  throws the \<^verbatim>\<open>TypeError\<close> of line 77 with that character, or the call does not return,
  because the character opens a string that no later double quote closes or begins
  letters that go on to the end of the input.
\<close>

theorem tokenizer_step_or_stuck:
  assumes "reachable input (current, tokens)" and "current < length input"
  shows "(\<exists>next_config. tokenizer_step input (current, tokens) next_config)
    \<or> \<not> known_char (input ! current) \<and>
      tokenizer input = Throws (unknown_character (Some (input ! current)))
    \<or> tokenizer input = Diverges \<and>
      (input ! current = quote \<and> quote \<notin> set (drop (Suc current) input)
       \<or> list_all LETTERS (drop current input))"
  using step_or_stuck [OF assms(2), of tokens] steps_loop [OF assms(1) [unfolded reachable_def]]
  by (simp add: tokenizer_def)

theorem tokenizer_step_or_stuck_witness:
  "(\<exists>next_config. tokenizer_step ''(a'' (1, [Token Paren ''(''])  next_config)
    \<or> \<not> known_char (''(a'' ! 1) \<and>
      tokenizer ''(a'' = Throws (unknown_character (Some (''(a'' ! 1)))
    \<or> tokenizer ''(a'' = Diverges \<and>
      (''(a'' ! 1 = quote \<and> quote \<notin> set (drop (Suc 1) ''(a'')
       \<or> list_all LETTERS (drop 1 ''(a''))"
proof -
  have "tokenizer_step ''(a'' (0, []) (1, [Token Paren ''(''])"
    using step_paren [of 0 "''(a''" "CHR ''(''" "''a''" "[]"] by (simp add: PARENS_def)
  then have "reachable ''(a'' (1, [Token Paren ''(''])"
    unfolding reachable_def by (rule r_into_rtranclp)
  from tokenizer_step_or_stuck [OF this] show ?thesis by simp
qed

end
