(* ===== verification/Parser.thy ===== *)
theory Parser
  imports Syntax
begin

text \<open>
  The parser of \<^verbatim>\<open>src/tiny-compiler.js\<close> (lines 83 to 144): \<open>walk\<close> is the inner
  function of that name, with the cursor \<^verbatim>\<open>current\<close> it shares with the outer loop
  passed in and returned; \<open>walk_params\<close> is its \<^verbatim>\<open>while\<close> loop (lines 118 to 124),
  \<open>parser_loop\<close> the loop of lines 139 to 141. Reading a property of a token that is
  not there (\<^verbatim>\<open>tokens[current]\<close> past the end) is the error \<open>TypeError_undefined\<close>.

  \<open>unparse\<close> prints a tree back as tokens; it is the specification the parser is
  measured against: parsing the print of a tree gives the tree (\<open>parser_unparse\<close>),
  and a tree that the parser returns prints to the tokens it was given, up to the kind
  of the token in name position, which the code never looks at (\<open>reads_as\<close>).
  The rule \<open>walk_returns_induct\<close> is induction over the runs of \<open>walk\<close> that return.
\<close>

section \<open>Printing a tree as tokens\<close>

fun unparse :: "node \<Rightarrow> token list" where
  "unparse (NumberLiteral v) = [Token Number v]"
| "unparse (StringLiteral v) = [Token String v]"
| "unparse (CallExpression name params) =
     Token Paren ''('' # Token Name name # concat (map unparse params) @ [Token Paren '')'']"
| "unparse _ = []"

definition unparse_all :: "node list \<Rightarrow> token list" where
  "unparse_all body = concat (map unparse body)"

definition reads_as :: "token \<Rightarrow> token \<Rightarrow> bool" where
  "reads_as printed token \<longleftrightarrow>
     tok_value printed = tok_value token \<and> (tok_type printed = Name \<or> tok_type printed = tok_type token)"

definition parser_error :: "js_error \<Rightarrow> bool" where
  "parser_error e \<longleftrightarrow> e = TypeError_undefined \<or> e = TypeError ''paren'' \<or> e = TypeError ''name''"

section \<open>The parser\<close>

function walk :: "token list \<Rightarrow> nat \<Rightarrow> (node \<times> nat) result"
  and walk_params :: "token list \<Rightarrow> node list \<Rightarrow> nat \<Rightarrow> (node list \<times> nat) result"
where
  "walk tokens current =
    (case js_index tokens current of
       None \<Rightarrow> Inl TypeError_undefined
     | Some token \<Rightarrow>
        if tok_type token = Number then Inr (NumberLiteral (tok_value token), current + 1)
        else if tok_type token = String then Inr (StringLiteral (tok_value token), current + 1)
        else if tok_type token = Paren \<and> tok_value token = ''('' then
          (case js_index tokens (current + 1) of
             None \<Rightarrow> Inl TypeError_undefined
           | Some name_token \<Rightarrow>
              (case walk_params tokens [] (current + 2) of
                 Inl e \<Rightarrow> Inl e
               | Inr (params, current') \<Rightarrow>
                   Inr (CallExpression (tok_value name_token) params, current' + 1)))
        else Inl (TypeError (type_name (tok_type token))))"
| "walk_params tokens params current =
    (case js_index tokens current of
       None \<Rightarrow> Inl TypeError_undefined
     | Some token \<Rightarrow>
        if tok_type token \<noteq> Paren \<or> (tok_type token = Paren \<and> tok_value token \<noteq> '')'') then
          (case walk tokens current of
             Inl e \<Rightarrow> Inl e
           | Inr (node, current') \<Rightarrow> walk_params tokens (params @ [node]) current')
        else Inr (params, current))"
  by pat_completeness auto

lemma walk_progress_dom:
  "walk_walk_params_dom (Inl (tokens, current)) \<Longrightarrow>
     walk tokens current = Inr (node, current') \<Longrightarrow> current < current'"
  "walk_walk_params_dom (Inr (tokens, params, current)) \<Longrightarrow>
     walk_params tokens params current = Inr (params', current') \<Longrightarrow> current \<le> current'"
proof (induction tokens current and tokens params current arbitrary: node current' and params' current'
    rule: walk_walk_params.pinduct)
  case (1 tokens current)
  from "1.prems" "1.IH" show ?case
    by (subst (asm) walk.psimps [OF "1.hyps"])
      (fastforce split: option.splits if_splits sum.splits prod.splits)
next
  case (2 tokens params current)
  from "2.prems" "2.IH" show ?case
    by (subst (asm) walk_params.psimps [OF "2.hyps"])
      (fastforce split: option.splits if_splits sum.splits prod.splits)
qed

lemma walk_measure_dom:
  assumes "walk_walk_params_dom (Inl (tokens, current))" "walk tokens current = Inr (node, current')"
    "current < length tokens"
  shows "length tokens - current' < length tokens - current"
  using walk_progress_dom(1) [OF assms(1,2)] assms(3) by simp

lemma walk_total: "All walk_walk_params_dom"
  by (relation "measure (\<lambda>x. case x of
      Inl (tokens, current) \<Rightarrow> 2 * (length tokens - current)
    | Inr (tokens, params, current) \<Rightarrow> 2 * (length tokens - current) + 1)")
    (auto simp: js_index_eq_Some_iff walk_measure_dom)

termination walk
  by (rule walk_total)

declare walk.simps [simp del] walk_params.simps [simp del]

lemmas walk_progress = walk_progress_dom [OF walk_total [THEN spec]]

lemma walk_measure:
  "walk tokens current = Inr (node, current') \<Longrightarrow> current < length tokens \<Longrightarrow>
   length tokens - current' < length tokens - current"
  by (rule walk_measure_dom [OF walk_total [THEN spec]])

function parser_loop :: "token list \<Rightarrow> nat \<Rightarrow> node list \<Rightarrow> node result" where
  "parser_loop tokens current body =
    (if current < length tokens then
       (case walk tokens current of
          Inl e \<Rightarrow> Inl e
        | Inr (node, current') \<Rightarrow> parser_loop tokens current' (body @ [node]))
     else Inr (Program body))"
  by pat_completeness auto
termination
  by (relation "measure (\<lambda>(tokens, current, body). length tokens - current)")
    (auto intro: walk_measure)

declare parser_loop.simps [simp del]

definition parser :: "token list \<Rightarrow> node result" where
  "parser tokens = parser_loop tokens 0 []"

section \<open>Branch by branch\<close>

lemma walk_end: "drop current tokens = [] \<Longrightarrow> walk tokens current = Inl TypeError_undefined"
  by (subst walk.simps) (simp add: js_index_beyond)

lemma walk_number:
  "drop current tokens = Token Number v # rest \<Longrightarrow> walk tokens current = Inr (NumberLiteral v, current + 1)"
  by (subst walk.simps) (simp add: js_index_drop_Cons)

lemma walk_string:
  "drop current tokens = Token String v # rest \<Longrightarrow> walk tokens current = Inr (StringLiteral v, current + 1)"
  by (subst walk.simps) (simp add: js_index_drop_Cons)

lemma walk_open_end:
  "drop current tokens = [Token Paren ''(''] \<Longrightarrow> walk tokens current = Inl TypeError_undefined"
  by (subst walk.simps) (simp add: js_index_drop_Cons js_index_beyond drop_eq_Cons_iff)

lemma walk_call:
  "drop current tokens = Token Paren ''('' # name_token # rest \<Longrightarrow>
   walk tokens current =
     map_result (\<lambda>(params, current'). (CallExpression (tok_value name_token) params, current' + 1))
       (walk_params tokens [] (current + 2))"
proof -
  assume d: "drop current tokens = Token Paren ''('' # name_token # rest"
  then have "drop (Suc current) tokens = name_token # rest" by (rule drop_Suc_of_Cons)
  with d show ?thesis
    by (subst walk.simps) (simp add: js_index_drop_Cons split: sum.splits)
qed

lemma walk_unexpected:
  "drop current tokens = token # rest \<Longrightarrow> tok_type token = Name \<or> token = Token Paren '')'' \<Longrightarrow>
   walk tokens current = Inl (TypeError (type_name (tok_type token)))"
  by (subst walk.simps) (auto simp: js_index_drop_Cons)

lemma walk_params_end:
  "drop current tokens = [] \<Longrightarrow> walk_params tokens params current = Inl TypeError_undefined"
  by (subst walk_params.simps) (simp add: js_index_beyond)

lemma walk_params_close:
  "drop current tokens = Token Paren '')'' # rest \<Longrightarrow> walk_params tokens params current = Inr (params, current)"
  by (subst walk_params.simps) (simp add: js_index_drop_Cons)

lemma walk_params_more:
  "drop current tokens = token # rest \<Longrightarrow> token \<noteq> Token Paren '')'' \<Longrightarrow>
   walk_params tokens params current =
     (case walk tokens current of
        Inl e \<Rightarrow> Inl e
      | Inr (node, current') \<Rightarrow> walk_params tokens (params @ [node]) current')"
  by (subst walk_params.simps) (auto simp: js_index_drop_Cons token_eq_iff)

lemma parser_loop_end: "drop current tokens = [] \<Longrightarrow> parser_loop tokens current body = Inr (Program body)"
  by (subst parser_loop.simps) simp

lemma parser_loop_more:
  "drop current tokens = token # rest \<Longrightarrow>
   parser_loop tokens current body =
     (case walk tokens current of
        Inl e \<Rightarrow> Inl e
      | Inr (node, current') \<Rightarrow> parser_loop tokens current' (body @ [node]))"
  by (subst parser_loop.simps) (simp add: drop_eq_Cons_iff)

section \<open>Induction over the runs that return\<close>

lemma walk_returns_induct_aux:
  assumes Number: "\<And>current token. js_index tokens current = Some token \<Longrightarrow> tok_type token = Number \<Longrightarrow>
      P current (NumberLiteral (tok_value token)) (Suc current)"
    and String: "\<And>current token. js_index tokens current = Some token \<Longrightarrow> tok_type token = String \<Longrightarrow>
      P current (StringLiteral (tok_value token)) (Suc current)"
    and Call: "\<And>current token name_token params c.
      js_index tokens current = Some token \<Longrightarrow> tok_type token = Paren \<Longrightarrow> tok_value token = ''('' \<Longrightarrow>
      js_index tokens (Suc current) = Some name_token \<Longrightarrow>
      walk_params tokens [] (Suc (Suc current)) = Inr (params, c) \<Longrightarrow> Q [] (Suc (Suc current)) params c \<Longrightarrow>
      P current (CallExpression (tok_value name_token) params) (Suc c)"
    and Close: "\<And>params current token. js_index tokens current = Some token \<Longrightarrow>
      tok_type token = Paren \<Longrightarrow> tok_value token = '')'' \<Longrightarrow> Q params current params current"
    and More: "\<And>params current token node c params' c'.
      js_index tokens current = Some token \<Longrightarrow> tok_type token \<noteq> Paren \<or> tok_value token \<noteq> '')'' \<Longrightarrow>
      walk tokens current = Inr (node, c) \<Longrightarrow> P current node c \<Longrightarrow>
      walk_params tokens (params @ [node]) c = Inr (params', c') \<Longrightarrow> Q (params @ [node]) c params' c' \<Longrightarrow>
      Q params current params' c'"
  shows "walk tokens current = Inr (node, current') \<Longrightarrow> P current node current'"
    and "walk_params tokens params current = Inr (params', current') \<Longrightarrow> Q params current params' current'"
  using assms
proof (induction tokens current and tokens params current arbitrary: node current' and params' current'
    rule: walk_walk_params.induct)
  case (1 tokens current)
  from "1.prems" "1.IH" show ?case
    by (subst (asm) walk.simps)
      (auto split: option.splits if_splits sum.splits prod.splits)
next
  case (2 tokens params current)
  from "2.prems" "2.IH" show ?case
    by (subst (asm) walk_params.simps)
      (auto split: option.splits if_splits sum.splits prod.splits)
qed

lemmas walk_returns_induct [consumes 1, case_names Number String Call Close More] =
  walk_returns_induct_aux [rotated 5]

lemma walk_bound:
  "walk tokens current = Inr (node, current') \<Longrightarrow> current < current' \<and> current' \<le> length tokens"
  "walk_params tokens params current = Inr (params', current') \<Longrightarrow>
     current \<le> current' \<and> current' < length tokens"
  by (induction rule: walk_returns_induct) (auto dest: js_index_SomeD)

lemma walk_old_expression:
  "walk tokens current = Inr (node, current') \<Longrightarrow> old_expression node"
  "walk_params tokens params current = Inr (params', current') \<Longrightarrow>
     list_all old_expression params \<longrightarrow> list_all old_expression params'"
  by (induction rule: walk_returns_induct) auto

section \<open>Errors\<close>

lemma parser_error_undefined [simp]: "parser_error TypeError_undefined"
  by (simp add: parser_error_def)

lemma parser_error_unexpected:
  "t \<noteq> Number \<Longrightarrow> t \<noteq> String \<Longrightarrow> parser_error (TypeError (type_name t))"
  by (cases t) (simp_all add: parser_error_def)

lemma walk_errors:
  "walk tokens current = Inl e \<Longrightarrow> parser_error e"
  "walk_params tokens params current = Inl e \<Longrightarrow> parser_error e"
proof (induction tokens current and tokens params current rule: walk_walk_params.induct)
  case (1 tokens current)
  from "1.prems" "1.IH" show ?case
    by (subst (asm) walk.simps)
      (auto split: option.splits if_splits sum.splits prod.splits intro: parser_error_unexpected)
next
  case (2 tokens params current)
  from "2.prems" "2.IH" show ?case
    by (subst (asm) walk_params.simps)
      (auto split: option.splits if_splits sum.splits prod.splits)
qed

lemma parser_loop_errors:
  "parser_loop tokens current body = Inl e \<Longrightarrow> parser_error e"
proof (induction tokens current body rule: parser_loop.induct)
  case (1 tokens current body)
  from "1.prems" "1.IH" show ?case
    by (subst (asm) parser_loop.simps)
      (auto split: if_splits sum.splits prod.splits dest: walk_errors(1))
qed

section \<open>Round trip\<close>

lemma unparse_first:
  "old_expression n \<Longrightarrow> \<exists>t ts. unparse n = t # ts \<and> t \<noteq> Token Paren '')''"
  by (cases n) auto

lemma walk_params_skip_aux:
  assumes "\<And>n current rest. n \<in> set ps \<Longrightarrow> drop current tokens = unparse n @ rest \<Longrightarrow>
      walk tokens current = Inr (n, current + length (unparse n))"
    and "list_all old_expression ps"
    and "drop current tokens = unparse_all ps @ rest"
  shows "walk_params tokens params current =
    walk_params tokens (params @ ps) (current + length (unparse_all ps))"
  using assms
proof (induction ps arbitrary: current params)
  case Nil
  then show ?case by (simp add: unparse_all_def)
next
  case (Cons p ps)
  from Cons.prems(2) obtain t ts where t: "unparse p = t # ts" "t \<noteq> Token Paren '')''"
    using unparse_first [of p] by auto
  from Cons.prems(3) have d: "drop current tokens = unparse p @ unparse_all ps @ rest"
    by (simp add: unparse_all_def)
  then have w: "walk tokens current = Inr (p, current + length (unparse p))"
    by (intro Cons.prems(1)) simp_all
  from d have "drop (current + length (unparse p)) tokens = unparse_all ps @ rest"
    by (rule drop_add_append)
  with Cons.IH [of "current + length (unparse p)" "params @ [p]"] Cons.prems(1,2)
  have "walk_params tokens (params @ [p]) (current + length (unparse p)) =
      walk_params tokens (params @ p # ps) (current + length (unparse p) + length (unparse_all ps))"
    by simp
  with d t w show ?case
    by (simp add: walk_params_more [of current tokens t] unparse_all_def ac_simps)
qed

lemma walk_call_aux:
  assumes "\<And>n current rest. n \<in> set ps \<Longrightarrow> drop current tokens = unparse n @ rest \<Longrightarrow>
      walk tokens current = Inr (n, current + length (unparse n))"
    and "list_all old_expression ps"
    and d: "drop current tokens = Token Paren ''('' # t # unparse_all ps @ Token Paren '')'' # rest"
  shows "walk tokens current = Inr (CallExpression (tok_value t) ps, current + length (unparse_all ps) + 3)"
proof -
  from d have d2: "drop (current + 2) tokens = unparse_all ps @ Token Paren '')'' # rest"
    using drop_add_append [of current tokens "[Token Paren ''('', t]"] by simp
  then have "drop (current + 2 + length (unparse_all ps)) tokens = Token Paren '')'' # rest"
    by (rule drop_add_append)
  with d2 assms(1,2)
  have "walk_params tokens [] (current + 2) = Inr (ps, current + 2 + length (unparse_all ps))"
    using walk_params_skip_aux [of ps tokens "current + 2" "Token Paren '')'' # rest" "[]"]
    by (simp add: walk_params_close)
  with d show ?thesis by (simp add: walk_call)
qed

lemma walk_unparse:
  "old_expression n \<Longrightarrow> drop current tokens = unparse n @ rest \<Longrightarrow>
   walk tokens current = Inr (n, current + length (unparse n))"
proof (induction n arbitrary: current rest)
  case (CallExpression name ps)
  then show ?case
    using walk_call_aux [of ps tokens current "Token Name name" rest]
    by (simp add: unparse_all_def list_all_iff)
qed (simp_all add: walk_number walk_string)

lemma walk_call_any:
  "list_all old_expression ps \<Longrightarrow>
   drop current tokens = Token Paren ''('' # t # unparse_all ps @ Token Paren '')'' # rest \<Longrightarrow>
   walk tokens current = Inr (CallExpression (tok_value t) ps, current + length (unparse_all ps) + 3)"
  by (rule walk_call_aux) (simp_all add: walk_unparse list_all_iff)

lemma walk_params_skip:
  "list_all old_expression ps \<Longrightarrow> drop current tokens = unparse_all ps @ rest \<Longrightarrow>
   walk_params tokens params current =
     walk_params tokens (params @ ps) (current + length (unparse_all ps))"
  by (rule walk_params_skip_aux) (simp_all add: walk_unparse list_all_iff)

lemma parser_loop_skip:
  "list_all old_expression ns \<Longrightarrow> drop current tokens = unparse_all ns @ rest \<Longrightarrow>
   parser_loop tokens current body =
     parser_loop tokens (current + length (unparse_all ns)) (body @ ns)"
proof (induction ns arbitrary: current body)
  case Nil
  then show ?case by (simp add: unparse_all_def)
next
  case (Cons n ns)
  from Cons.prems(1) obtain t ts where t: "unparse n = t # ts"
    using unparse_first [of n] by auto
  from Cons.prems have d: "drop current tokens = unparse n @ unparse_all ns @ rest"
    by (simp add: unparse_all_def)
  then have "drop (current + length (unparse n)) tokens = unparse_all ns @ rest" by (rule drop_add_append)
  with Cons.IH [of "current + length (unparse n)" "body @ [n]"] Cons.prems(1) d t
    walk_unparse [of n current tokens "unparse_all ns @ rest"] show ?case
    by (simp add: parser_loop_more [of current tokens t] unparse_all_def ac_simps)
qed

lemma parser_skip:
  "list_all old_expression ns \<Longrightarrow>
   parser (unparse_all ns @ rest) =
     parser_loop (unparse_all ns @ rest) (length (unparse_all ns)) ns"
  using parser_loop_skip [of ns 0 "unparse_all ns @ rest" rest "[]"] by (simp add: parser_def)

lemma parser_unparse: "list_all old_expression body \<Longrightarrow> parser (unparse_all body) = Inr (Program body)"
  using parser_skip [of body "[]"] by (simp add: parser_loop_end)

section \<open>What a returned tree says about the tokens\<close>

lemma unparse_all_simps [simp]:
  "unparse_all [] = []"
  "unparse_all (n # ns) = unparse n @ unparse_all ns"
  "unparse_all (ns @ ms) = unparse_all ns @ unparse_all ms"
  by (simp_all add: unparse_all_def)

lemma reads_as_Token [simp]:
  "reads_as (Token ty v) t \<longleftrightarrow> tok_value t = v \<and> (ty = Name \<or> tok_type t = ty)"
  by (auto simp: reads_as_def)

lemma walk_sound:
  "walk tokens current = Inr (node, current') \<Longrightarrow>
     list_all2 reads_as (unparse node) (slice current current' tokens)"
  "walk_params tokens params current = Inr (params', current') \<Longrightarrow>
     \<exists>ps. params' = params @ ps \<and> list_all2 reads_as (unparse_all ps) (slice current current' tokens) \<and>
       js_index tokens current' = Some (Token Paren '')'')"
proof (induction rule: walk_returns_induct)
  case (Call current token name_token params c)
  from Call have "Suc (Suc current) \<le> c" by (auto dest: walk_bound(2))
  with Call have "slice current (Suc c) tokens =
      token # name_token # slice (Suc (Suc current)) c tokens @ [Token Paren '')'']"
    using slice_Cons [of tokens current token "Suc c"] slice_Cons [of tokens "Suc current" name_token "Suc c"]
      slice_snoc [of "Suc (Suc current)" c tokens]
    by auto
  with Call show ?case by (auto intro!: list_all2_appendI simp: unparse_all_def reads_as_def)
next
  case (More params current token node c params' c')
  then obtain ps where ps: "params' = (params @ [node]) @ ps"
    "list_all2 reads_as (unparse_all ps) (slice c c' tokens)"
    "js_index tokens c' = Some (Token Paren '')'')"
    by auto
  from More have "current \<le> c" "c \<le> c'" by (auto dest: walk_bound)
  then have "slice current c' tokens = slice current c tokens @ slice c c' tokens"
    by (simp add: slice_append)
  with More ps show ?case by (auto intro!: exI [of _ "node # ps"] list_all2_appendI)
qed (auto simp: slice_one)

lemma parser_loop_sound:
  "parser_loop tokens current body = Inr ast \<Longrightarrow>
   \<exists>ns. ast = Program (body @ ns) \<and> list_all old_expression ns \<and>
     list_all2 reads_as (unparse_all ns) (slice current (length tokens) tokens)"
proof (induction tokens current body rule: parser_loop.induct)
  case (1 tokens current body)
  show ?case
  proof (cases "current < length tokens")
    case False
    with "1.prems" show ?thesis
      by (subst (asm) parser_loop.simps) (auto intro: exI [of _ "[]"])
  next
    case True
    with "1.prems" obtain node c where w: "walk tokens current = Inr (node, c)"
      and l: "parser_loop tokens c (body @ [node]) = Inr ast"
      by (subst (asm) parser_loop.simps) (auto split: sum.splits)
    with "1.IH" True obtain ns where ns: "ast = Program ((body @ [node]) @ ns)" "list_all old_expression ns"
      "list_all2 reads_as (unparse_all ns) (slice c (length tokens) tokens)"
      by blast
    from walk_bound(1) [OF w]
    have "slice current (length tokens) tokens = slice current c tokens @ slice c (length tokens) tokens"
      by (simp add: slice_append)
    with w ns show ?thesis
      by (auto intro!: exI [of _ "node # ns"] list_all2_appendI walk_sound(1) walk_old_expression(1))
  qed
qed

lemmas parser_eval = parser_def parser_loop.simps walk.simps walk_params.simps js_index_def

section \<open>The parser against its specification\<close>

text \<open>
  Claim C4. Parsing the tokens of a tree gives the tree back: for every list of
  number literals, string literals and call expressions, \<^verbatim>\<open>parser\<close> applied to its
  print \<open>unparse_all\<close> returns the \<^verbatim>\<open>Program\<close> with that body.
\<close>

theorem parser_roundtrip:
  "list_all old_expression body \<Longrightarrow> parser (unparse_all body) = Inr (Program body)"
  by (rule parser_unparse)

theorem parser_roundtrip_witness:
  "parser [Token Paren ''('', Token Name ''add'', Token Number ''2'', Token Paren ''('',
      Token Name ''subtract'', Token Number ''4'', Token Number ''2'', Token Paren '')'', Token Paren '')'']
   = Inr (Program [CallExpression ''add'' [NumberLiteral ''2'',
        CallExpression ''subtract'' [NumberLiteral ''4'', NumberLiteral ''2'']]])"
  using parser_roundtrip [of "[CallExpression ''add'' [NumberLiteral ''2'',
        CallExpression ''subtract'' [NumberLiteral ''4'', NumberLiteral ''2'']]]"]
  by simp

text \<open>
  Claim C8. A tree that \<^verbatim>\<open>parser\<close> returns is a \<^verbatim>\<open>Program\<close> of number literals,
  string literals and call expressions whose print is the token list it was given,
  token by token, except that the token in name position may have had any kind:
  every token is consumed, in order, and none is invented.
\<close>

theorem parser_sound:
  "parser tokens = Inr ast \<Longrightarrow>
   \<exists>body. ast = Program body \<and> list_all old_expression body \<and>
     list_all2 reads_as (unparse_all body) tokens"
  using parser_loop_sound [of tokens 0 "[]" ast] by (simp add: parser_def)

theorem parser_sound_witness:
  "parser [Token Paren ''('', Token String ''f'', Token String ''x'', Token Paren '')''] =
     Inr (Program [CallExpression ''f'' [StringLiteral ''x'']]) \<and>
   (\<exists>body. Program [CallExpression ''f'' [StringLiteral ''x'']] = Program body \<and>
     list_all old_expression body \<and>
     list_all2 reads_as (unparse_all body)
       [Token Paren ''('', Token String ''f'', Token String ''x'', Token Paren '')''])"
proof -
  have h: "parser [Token Paren ''('', Token String ''f'', Token String ''x'', Token Paren '')''] =
      Inr (Program [CallExpression ''f'' [StringLiteral ''x'']])"
    by (simp add: parser_eval)
  show ?thesis using h parser_sound [OF h] by simp
qed

text \<open>
  Claim C27. The token after an opening parenthesis becomes the name of the call
  whatever its kind is (line 108 reads \<^verbatim>\<open>tokens[++current]\<close> and line 112 takes its
  \<^verbatim>\<open>value\<close>; nothing tests \<^verbatim>\<open>token.type\<close>): a string, a number or a parenthesis in
  that position is accepted, and the call is named by its text.
\<close>

theorem parser_takes_any_token_as_name:
  "list_all old_expression ps \<Longrightarrow>
   parser (Token Paren ''('' # t # unparse_all ps @ [Token Paren '')'']) =
     Inr (Program [CallExpression (tok_value t) ps])"
proof -
  let ?tokens = "Token Paren ''('' # t # unparse_all ps @ [Token Paren '')'']"
  assume "list_all old_expression ps"
  then have "walk ?tokens 0 = Inr (CallExpression (tok_value t) ps, length ?tokens)"
    using walk_call_any [of ps 0 ?tokens t "[]"] by simp
  then show ?thesis
    by (simp add: parser_def parser_loop_more [of 0 ?tokens] parser_loop_end)
qed

theorem parser_takes_any_token_as_name_witness:
  "parser [Token Paren ''('', Token String ''hello'', Token Paren '')''] =
     Inr (Program [CallExpression ''hello'' []]) \<and>
   parser [Token Paren ''('', Token Paren ''('', Token Paren '')''] =
     Inr (Program [CallExpression ''('' []])"
  using parser_takes_any_token_as_name [of "[]" "Token String ''hello''"]
    parser_takes_any_token_as_name [of "[]" "Token Paren ''(''"]
  by simp

text \<open>
  Claim C37. A call that is not closed makes \<^verbatim>\<open>parser\<close> read past the end of the
  tokens: after any complete expressions, an opening parenthesis that ends the input,
  or one followed by a name and complete arguments but no closing parenthesis, ends in
  the engine's \<^verbatim>\<open>TypeError\<close> for a property of \<^verbatim>\<open>undefined\<close>, not in an error of
  the parser's own.
\<close>

theorem parser_unclosed_call:
  "list_all old_expression ns \<Longrightarrow> list_all old_expression ps \<Longrightarrow>
   parser (unparse_all ns @ [Token Paren ''('']) = Inl TypeError_undefined \<and>
   parser (unparse_all ns @ Token Paren ''('' # t # unparse_all ps) = Inl TypeError_undefined"
proof -
  let ?a = "unparse_all ns @ [Token Paren ''('']"
    and ?b = "unparse_all ns @ Token Paren ''('' # t # unparse_all ps"
  assume ns: "list_all old_expression ns" and ps: "list_all old_expression ps"
  have "walk ?a (length (unparse_all ns)) = Inl TypeError_undefined"
    by (rule walk_open_end) simp
  moreover have "walk_params ?b [] (length (unparse_all ns) + 2) = Inl TypeError_undefined"
    using walk_params_skip [OF ps, of "length (unparse_all ns) + 2" ?b "[]" "[]"]
    by (simp add: walk_params_end)
  then have "walk ?b (length (unparse_all ns)) = Inl TypeError_undefined"
    by (simp add: walk_call [of _ _ t "unparse_all ps"])
  ultimately show ?thesis
    using ns by (simp add: parser_skip parser_loop_more [of _ _ "Token Paren ''(''"])
qed

theorem parser_unclosed_call_witness:
  "parser [Token Number ''1'', Token Paren ''(''] = Inl TypeError_undefined \<and>
   parser [Token Number ''1'', Token Paren ''('', Token Name ''add'', Token Number ''2''] =
     Inl TypeError_undefined"
  using parser_unclosed_call [of "[NumberLiteral ''1'']" "[NumberLiteral ''2'']" "Token Name ''add''"]
  by simp

text \<open>
  Claim C38. Where an expression is expected at top level, a name or a closing
  parenthesis is refused with \<^verbatim>\<open>throw new TypeError(token.type)\<close> (line 131): after
  any complete expressions, such a token makes \<^verbatim>\<open>parser\<close> throw a \<^verbatim>\<open>TypeError\<close>
  whose message is the kind of the token, whatever follows it.
\<close>

theorem parser_unexpected_token:
  "list_all old_expression ns \<Longrightarrow> tok_type t = Name \<or> t = Token Paren '')'' \<Longrightarrow>
   parser (unparse_all ns @ t # rest) = Inl (TypeError (type_name (tok_type t)))"
proof -
  assume ns: "list_all old_expression ns" and t: "tok_type t = Name \<or> t = Token Paren '')''"
  then have "walk (unparse_all ns @ t # rest) (length (unparse_all ns)) =
      Inl (TypeError (type_name (tok_type t)))"
    by (intro walk_unexpected [of _ _ t rest]) simp_all
  with ns show ?thesis
    by (simp add: parser_skip parser_loop_more [of _ _ t rest])
qed

theorem parser_unexpected_token_witness:
  "parser [Token Number ''1'', Token Paren '')'', Token Number ''2''] = Inl (TypeError ''paren'') \<and>
   parser [Token Name ''add'', Token Number ''2''] = Inl (TypeError ''name'')"
  using parser_unexpected_token [of "[NumberLiteral ''1'']" "Token Paren '')''" "[Token Number ''2'']"]
    parser_unexpected_token [of "[]" "Token Name ''add''" "[Token Number ''2'']"]
  by simp

text \<open>
  \<^verbatim>\<open>parser\<close> throws nothing but three errors: the engine's
  \<^verbatim>\<open>TypeError\<close> for reading a token past the end, and the \<^verbatim>\<open>TypeError\<close> of line 131
  with the message \<^verbatim>\<open>paren\<close> or \<^verbatim>\<open>name\<close>.
\<close>

theorem parser_throws_only:
  "parser tokens = Inl e \<Longrightarrow> parser_error e"
  unfolding parser_def by (rule parser_loop_errors)

theorem parser_throws_only_witness:
  "parser_error (TypeError ''paren'')"
  using parser_throws_only [of "[Token Paren '')'']" "TypeError ''paren''"]
  by (simp add: parser_eval)

text \<open>
  Claim C33. The cursor of \<^verbatim>\<open>walk\<close> moves forward and stays within the tokens: a
  call that returns leaves \<^verbatim>\<open>current\<close> strictly greater than it found it and at most
  the number of tokens, which is what makes the loops of the parser end.
\<close>

theorem walk_cursor_bounds:
  "walk tokens current = Inr (node, current') \<Longrightarrow> current < current' \<and> current' \<le> length tokens"
  by (rule walk_bound(1))

theorem walk_cursor_bounds_witness:
  "walk [Token Number ''0'', Token Paren ''('', Token Name ''f'', Token Paren '')''] 1 =
     Inr (CallExpression ''f'' [], 4) \<and>
   (1 :: nat) < 4 \<and> (4 :: nat) \<le> length [Token Number ''0'', Token Paren ''('', Token Name ''f'', Token Paren '')'']"
proof -
  have h: "walk [Token Number ''0'', Token Paren ''('', Token Name ''f'', Token Paren '')''] 1 =
      Inr (CallExpression ''f'' [], 4)"
    by (simp add: parser_eval)
  show ?thesis using h walk_cursor_bounds [OF h] by simp
qed

end
