(* ===== verification/Grammar.thy ===== *)
theory Grammar
  imports Parser
begin

text \<open>
  The language that \<^verbatim>\<open>parser\<close> accepts, as a grammar over tokens. The productions
  are those of the input grammar, \<^verbatim>\<open>program := expr*\<close> and
  \<^verbatim>\<open>expr := number | string | '(' name expr* ')'\<close>, with one difference that is the
  code's: the token after an opening parenthesis may be any token, since \<^verbatim>\<open>walk\<close>
  reads its \<^verbatim>\<open>value\<close> and never its \<^verbatim>\<open>type\<close>. \<open>expr_tokens ts node\<close> says that
  the tokens \<open>ts\<close> are an expression with tree \<open>node\<close>, \<open>args_tokens\<close> is a sequence of
  expressions, \<open>program_tokens\<close> a program.

  \<open>grammar_walk\<close> is by induction over derivations, \<open>walk_grammar\<close> by induction over
  the runs of \<open>walk\<close> that return; together they give \<open>parser_iff_grammar\<close>. The grammar
  is unambiguous because the parser is a function.
\<close>

section \<open>The grammar\<close>

inductive expr_tokens :: "token list \<Rightarrow> node \<Rightarrow> bool"
  and args_tokens :: "token list \<Rightarrow> node list \<Rightarrow> bool"
where
  Number: "tok_type t = Number \<Longrightarrow> expr_tokens [t] (NumberLiteral (tok_value t))"
| String: "tok_type t = String \<Longrightarrow> expr_tokens [t] (StringLiteral (tok_value t))"
| Call: "args_tokens ts params \<Longrightarrow>
    expr_tokens (Token Paren ''('' # t # ts @ [Token Paren '')'']) (CallExpression (tok_value t) params)"
| Nil: "args_tokens [] []"
| Cons: "expr_tokens ts node \<Longrightarrow> args_tokens tss nodes \<Longrightarrow> args_tokens (ts @ tss) (node # nodes)"

inductive program_tokens :: "token list \<Rightarrow> node \<Rightarrow> bool" where
  Program: "args_tokens ts body \<Longrightarrow> program_tokens ts (Program body)"

section \<open>Inversion\<close>

inductive_simps program_tokens_Program [simp]: "program_tokens ts (Program body)"

inductive_cases expr_tokens_NumberE: "expr_tokens ts (NumberLiteral v)"
inductive_cases expr_tokens_CallE: "expr_tokens ts (CallExpression name params)"
inductive_cases args_tokens_NilE: "args_tokens ts []"
inductive_cases args_tokens_ConsE: "args_tokens ts (node # nodes)"

lemma expr_tokens_first:
  "expr_tokens ts node \<Longrightarrow> \<exists>t rest. ts = t # rest \<and> t \<noteq> Token Paren '')''"
  by (cases rule: expr_tokens.cases) (auto simp: token_eq_iff)

section \<open>The parser accepts the sentences of the grammar\<close>

lemma grammar_walk:
  "expr_tokens ts node \<Longrightarrow> drop current tokens = ts @ rest \<Longrightarrow>
     walk tokens current = Inr (node, current + length ts)"
  "args_tokens ts nodes \<Longrightarrow> drop current tokens = ts @ Token Paren '')'' # rest \<Longrightarrow>
     walk_params tokens params current = Inr (params @ nodes, current + length ts)"
proof (induction arbitrary: current rest and current rest params rule: expr_tokens_args_tokens.inducts)
  case (Number t)
  then show ?case by (cases t) (simp add: walk_number)
next
  case (String t)
  then show ?case by (cases t) (simp add: walk_string)
next
  case (Call ts params t)
  from Call.prems have "drop (current + 2) tokens = ts @ Token Paren '')'' # rest"
    using drop_add_append [of current tokens "[Token Paren ''('', t]"] by simp
  then have "walk_params tokens [] (current + 2) = Inr (params, current + 2 + length ts)"
    using Call.IH by simp
  with Call.prems show ?case by (simp add: walk_call)
next
  case Nil
  then show ?case by (simp add: walk_params_close)
next
  case (Cons ts node tss nodes)
  from Cons.hyps(1) obtain t ts' where t: "ts = t # ts'" "t \<noteq> Token Paren '')''"
    using expr_tokens_first by blast
  from Cons.prems have d: "drop current tokens = ts @ tss @ Token Paren '')'' # rest" by simp
  then have w: "walk tokens current = Inr (node, current + length ts)" by (rule Cons.IH(1))
  from d have "drop (current + length ts) tokens = tss @ Token Paren '')'' # rest"
    by (rule drop_add_append)
  then have "walk_params tokens (params @ [node]) (current + length ts) =
      Inr ((params @ [node]) @ nodes, current + length ts + length tss)"
    by (rule Cons.IH(2))
  with d t w show ?case
    by (simp add: walk_params_more [of current tokens t] ac_simps)
qed

section \<open>What the parser accepts is a sentence\<close>

lemma walk_grammar:
  "walk tokens current = Inr (node, current') \<Longrightarrow> expr_tokens (slice current current' tokens) node"
  "walk_params tokens params current = Inr (params', current') \<Longrightarrow>
     \<exists>nodes. params' = params @ nodes \<and> args_tokens (slice current current' tokens) nodes \<and>
       js_index tokens current' = Some (Token Paren '')'')"
proof (induction rule: walk_returns_induct)
  case (Number current token)
  then show ?case by (auto simp: slice_one intro: expr_tokens_args_tokens.Number)
next
  case (String current token)
  then show ?case by (auto simp: slice_one intro: expr_tokens_args_tokens.String)
next
  case (Call current token name_token params c)
  from Call have "Suc (Suc current) \<le> c" by (auto dest: walk_bound(2))
  with Call have "slice current (Suc c) tokens =
      Token Paren ''('' # name_token # slice (Suc (Suc current)) c tokens @ [Token Paren '')'']"
    using slice_Cons [of tokens current token "Suc c"] slice_Cons [of tokens "Suc current" name_token "Suc c"]
      slice_snoc [of "Suc (Suc current)" c tokens]
    by (cases token) auto
  with Call show ?case by (auto intro: expr_tokens_args_tokens.Call)
next
  case (Close params current token)
  then show ?case by (cases token) (auto intro: expr_tokens_args_tokens.Nil)
next
  case (More params current token node c params' c')
  then obtain nodes where nodes: "params' = (params @ [node]) @ nodes"
    "args_tokens (slice c c' tokens) nodes" "js_index tokens c' = Some (Token Paren '')'')"
    by auto
  from More have "current \<le> c" "c \<le> c'" by (auto dest: walk_bound)
  then have "slice current c' tokens = slice current c tokens @ slice c c' tokens"
    by (simp add: slice_append)
  with More nodes show ?case
    by (auto intro!: exI [of _ "node # nodes"] expr_tokens_args_tokens.Cons)
qed

section \<open>Programs\<close>

lemma parser_loop_grammar:
  "args_tokens ts nodes \<Longrightarrow> drop current tokens = ts \<Longrightarrow>
   parser_loop tokens current body = Inr (Program (body @ nodes))"
proof (induction nodes arbitrary: ts current body)
  case Nil
  then show ?case by (auto elim: args_tokens_NilE simp: parser_loop_end)
next
  case (Cons node nodes)
  from Cons.prems(1) obtain ts1 tss where split: "ts = ts1 @ tss" "expr_tokens ts1 node" "args_tokens tss nodes"
    by (auto elim: args_tokens_ConsE)
  from split(2) obtain t where t: "ts1 = t # tl ts1" using expr_tokens_first by fastforce
  from split Cons.prems(2) have d: "drop current tokens = ts1 @ tss" by simp
  with split(2) have "walk tokens current = Inr (node, current + length ts1)" by (rule grammar_walk(1))
  moreover from d have "drop (current + length ts1) tokens = tss" by (rule drop_add_append)
  with split(3) have "parser_loop tokens (current + length ts1) (body @ [node]) =
      Inr (Program ((body @ [node]) @ nodes))"
    by (rule Cons.IH)
  ultimately show ?case
    using d t by (simp add: parser_loop_more [of current tokens t "tl ts1 @ tss"])
qed

lemma grammar_parser_loop:
  "parser_loop tokens current body = Inr ast \<Longrightarrow>
   \<exists>nodes. ast = Program (body @ nodes) \<and> args_tokens (slice current (length tokens) tokens) nodes"
proof (induction tokens current body rule: parser_loop.induct)
  case (1 tokens current body)
  show ?case
  proof (cases "current < length tokens")
    case False
    with "1.prems" show ?thesis
      by (subst (asm) parser_loop.simps) (auto intro: expr_tokens_args_tokens.Nil)
  next
    case True
    with "1.prems" obtain node c where w: "walk tokens current = Inr (node, c)"
      and l: "parser_loop tokens c (body @ [node]) = Inr ast"
      by (subst (asm) parser_loop.simps) (auto split: sum.splits)
    with "1.IH" True obtain nodes where nodes: "ast = Program ((body @ [node]) @ nodes)"
      "args_tokens (slice c (length tokens) tokens) nodes"
      by blast
    from walk_bound(1) [OF w]
    have "slice current (length tokens) tokens = slice current c tokens @ slice c (length tokens) tokens"
      by (simp add: slice_append)
    with w nodes show ?thesis
      by (auto intro!: exI [of _ "node # nodes"] expr_tokens_args_tokens.Cons walk_grammar(1))
  qed
qed

lemma parser_iff_grammar: "parser ts = Inr ast \<longleftrightarrow> program_tokens ts ast"
proof
  assume "parser ts = Inr ast"
  then show "program_tokens ts ast"
    using grammar_parser_loop [of ts 0 "[]" ast] by (auto simp: parser_def)
next
  assume "program_tokens ts ast"
  then show "parser ts = Inr ast"
    by (cases rule: program_tokens.cases) (simp add: parser_def parser_loop_grammar)
qed

lemma program_tokens_unambiguous: "program_tokens ts a \<Longrightarrow> program_tokens ts b \<Longrightarrow> a = b"
  by (simp flip: parser_iff_grammar)

section \<open>Deciding the grammar\<close>

text \<open>
  The grammar is decided by the functions of the parser; these equations make the
  three predicates executable.
\<close>

lemma expr_tokens_code [code]: "expr_tokens ts node \<longleftrightarrow> walk ts 0 = Inr (node, length ts)"
  using grammar_walk(1) [of ts node 0 ts "[]"] walk_grammar(1) [of ts 0 node "length ts"] by auto

lemma args_tokens_code [code]: "args_tokens ts nodes \<longleftrightarrow> parser_loop ts 0 [] = Inr (Program nodes)"
  using parser_loop_grammar [of ts nodes 0 ts "[]"] grammar_parser_loop [of ts 0 "[]" "Program nodes"] by auto

lemma program_tokens_code [code]: "program_tokens ts tree \<longleftrightarrow> parser ts = Inr tree"
  by (simp add: parser_iff_grammar)

lemma program_tokens_example:
  "program_tokens [Token Paren ''('', Token Name ''add'', Token Number ''2'', Token Paren '')'']
     (Program [CallExpression ''add'' [NumberLiteral ''2'']])"
  by code_simp

section \<open>The grammar and the printed form of a tree\<close>

lemma expr_tokens_unparse: "old_expression node \<Longrightarrow> expr_tokens (unparse node) node"
  using walk_unparse [of node 0 "unparse node" "[]"] walk_grammar(1) [of "unparse node" 0 node "length (unparse node)"]
  by simp

lemma expr_tokens_reads_as:
  "expr_tokens ts node \<Longrightarrow> old_expression node \<and> list_all2 reads_as (unparse node) ts"
  using grammar_walk(1) [of ts node 0 ts "[]"] walk_sound(1) [of ts 0 node "length ts"]
    walk_old_expression(1) [of ts 0 node "length ts"]
  by simp

lemma reads_as_paren [simp]: "reads_as (Token Paren v) t \<longleftrightarrow> t = Token Paren v"
  by (cases t) auto

lemma args_tokens_reads_as_aux:
  assumes "\<And>node ts. node \<in> set nodes \<Longrightarrow> list_all2 reads_as (unparse node) ts \<Longrightarrow> expr_tokens ts node"
    and "list_all2 reads_as (unparse_all nodes) ts"
  shows "args_tokens ts nodes"
  using assms
proof (induction nodes arbitrary: ts)
  case Nil
  then show ?case by (simp add: expr_tokens_args_tokens.Nil)
next
  case (Cons node nodes)
  from Cons.prems(2) obtain ts1 tss where "ts = ts1 @ tss" "list_all2 reads_as (unparse node) ts1"
    "list_all2 reads_as (unparse_all nodes) tss"
    by (auto simp: list_all2_append1)
  with Cons.IH [of tss] Cons.prems(1) show ?case
    by (auto intro: expr_tokens_args_tokens.Cons)
qed

lemma reads_as_expr_tokens:
  "old_expression node \<Longrightarrow> list_all2 reads_as (unparse node) ts \<Longrightarrow> expr_tokens ts node"
proof (induction node arbitrary: ts)
  case (CallExpression name params)
  from CallExpression.prems(2) obtain t mid where ts: "ts = Token Paren ''('' # t # mid @ [Token Paren '')'']"
    "tok_value t = name" "list_all2 reads_as (unparse_all params) mid"
    by (auto simp: list_all2_Cons1 list_all2_append1 unparse_all_def)
  with CallExpression.IH CallExpression.prems(1) have "args_tokens mid params"
    by (intro args_tokens_reads_as_aux) (auto simp: list_all_iff)
  with ts show ?case by (auto intro: expr_tokens_args_tokens.Call)
next
  case (NumberLiteral v)
  then show ?case
    using expr_tokens_args_tokens.Number by (fastforce simp: list_all2_Cons1)
next
  case (StringLiteral v)
  then show ?case
    using expr_tokens_args_tokens.String by (fastforce simp: list_all2_Cons1)
qed simp_all

section \<open>The parser and the grammar\<close>

text \<open>
  Claim C11. \<^verbatim>\<open>parser\<close> is equivalent to the grammar: it returns a tree on a list of
  tokens exactly when the list is a program of the grammar with that tree, and in
  every other case it throws.
\<close>

theorem parser_accepts_grammar:
  "(parser ts = Inr ast \<longleftrightarrow> program_tokens ts ast) \<and>
   ((\<exists>e. parser ts = Inl e) \<longleftrightarrow> (\<nexists>tree. program_tokens ts tree))"
  using parser_iff_grammar [symmetric] by (cases "parser ts") auto

end
