(* ===== verification/Traverser.thy ===== *)
theory Traverser
  imports Syntax
begin

text \<open>
  The traverser of \<^verbatim>\<open>src/tiny-compiler.js\<close> (lines 146 to 184), generic in what
  the hooks do. A hook is a function on a state \<open>'s\<close> that returns a state or throws
  in one (\<open>('s, 's) exit\<close>); it is given the node and its parent, each with the path
  that leads to it from the root, which stands for the identity of the object (the
  hooks of the transformer store a field on the nodes they are given). A visitor maps the name of a node kind to its methods
  (\<^verbatim>\<open>visitor[node.type]\<close>), \<open>enter_of\<close> and \<open>exit_of\<close> are the tests
  \<^verbatim>\<open>methods && methods.enter\<close> and \<^verbatim>\<open>methods && methods.exit\<close>.

  \<open>traverseNode\<close> and \<open>traverseArray\<close> are the two inner functions. A node whose
  \<^verbatim>\<open>type\<close> is \<^verbatim>\<open>CallExpression\<close> but that has \<^verbatim>\<open>arguments\<close> instead of \<^verbatim>\<open>params\<close>
  (\<open>NewCallExpression\<close>) reaches \<^verbatim>\<open>node.params.forEach\<close> at line 149 with
  \<^verbatim>\<open>undefined\<close>, which is \<open>TypeError_undefined\<close>. The hooks are assumed to leave
  \<^verbatim>\<open>type\<close>, \<^verbatim>\<open>body\<close> and \<^verbatim>\<open>params\<close> of the nodes alone, as those of the transformer
  do: the tree that is walked is a value.

  The specification is the list \<open>events\<close> of the visits in depth-first order, run by
  \<open>run\<close>; \<open>traverse_events\<close> is the refinement, \<open>traverse_related_events\<close> carries
  a property of the hooks over a whole walk, and \<open>event_ok\<close> says which events a walk
  can fire. A call that throws does so in a state: that of the hook that threw, or,
  when the walk itself throws, the state that the hooks called so far have left;
  \<open>traverse_exits\<close> carries an invariant of the hooks to both exits of a walk over
  any tree. \<open>subnodes\<close> lists the nodes of a tree with their paths and \<open>tracer\<close> is
  the visitor that records the calls of its hooks; \<open>events_visit\<close> shows that each
  node is entered and left, \<open>traverse_total\<close> that the walk returns when the hooks do.
\<close>

section \<open>The traverser\<close>

type_synonym path = "nat list"

type_synonym cursor = "path \<times> node"

type_synonym 's hook = "cursor \<Rightarrow> cursor option \<Rightarrow> 's \<Rightarrow> ('s, 's) exit"

record 's methods =
  enter :: "'s hook option"
  exit :: "'s hook option"

type_synonym 's visitor = "string \<Rightarrow> 's methods option"

definition enter_of :: "'s methods option \<Rightarrow> 's hook option" where
  "enter_of methods = (case methods of None \<Rightarrow> None | Some m \<Rightarrow> enter m)"

definition exit_of :: "'s methods option \<Rightarrow> 's hook option" where
  "exit_of methods = (case methods of None \<Rightarrow> None | Some m \<Rightarrow> exit m)"

definition call_hook :: "'s hook option \<Rightarrow> 's hook" where
  "call_hook hook node parent s = (case hook of None \<Rightarrow> Inr s | Some f \<Rightarrow> f node parent s)"

fun traverseNode :: "'s visitor \<Rightarrow> path \<Rightarrow> node \<Rightarrow> cursor option \<Rightarrow> 's \<Rightarrow> ('s, 's) exit"
  and traverseArray :: "'s visitor \<Rightarrow> nat \<Rightarrow> node list \<Rightarrow> cursor \<Rightarrow> 's \<Rightarrow> ('s, 's) exit"
where
  "traverseNode visitor path node parent s =
    (case call_hook (enter_of (visitor (node_type node))) (path, node) parent s of
       Inl e \<Rightarrow> Inl e
     | Inr s \<Rightarrow>
        (case
           (case node of
              Program body \<Rightarrow> traverseArray visitor 0 body (path, node) s
            | CallExpression name params \<Rightarrow> traverseArray visitor 0 params (path, node) s
            | NumberLiteral v \<Rightarrow> Inr s
            | StringLiteral v \<Rightarrow> Inr s
            | NewCallExpression callee arguments \<Rightarrow> Inl (TypeError_undefined, s)
            | _ \<Rightarrow> Inl (TypeError (node_type node), s))
         of
           Inl e \<Rightarrow> Inl e
         | Inr s \<Rightarrow> call_hook (exit_of (visitor (node_type node))) (path, node) parent s))"
| "traverseArray visitor i [] parent s = Inr s"
| "traverseArray visitor i (child # array) parent s =
    (case traverseNode visitor (fst parent @ [i]) child (Some parent) s of
       Inl e \<Rightarrow> Inl e
     | Inr s \<Rightarrow> traverseArray visitor (i + 1) array parent s)"

definition traverser :: "node \<Rightarrow> 's visitor \<Rightarrow> 's \<Rightarrow> ('s, 's) exit" where
  "traverser ast visitor s = traverseNode visitor [] ast None s"

section \<open>The order of the visits\<close>

datatype phase = Enter | Exit

type_synonym event = "phase \<times> cursor \<times> cursor option"

fun traversable :: "node \<Rightarrow> bool" where
  "traversable (Program body) \<longleftrightarrow> list_all traversable body"
| "traversable (CallExpression name params) \<longleftrightarrow> list_all traversable params"
| "traversable (NumberLiteral v) \<longleftrightarrow> True"
| "traversable (StringLiteral v) \<longleftrightarrow> True"
| "traversable _ \<longleftrightarrow> False"

fun children :: "node \<Rightarrow> node list" where
  "children (Program body) = body"
| "children (CallExpression name params) = params"
| "children _ = []"

fun events :: "path \<Rightarrow> node \<Rightarrow> cursor option \<Rightarrow> event list"
  and events_array :: "nat \<Rightarrow> node list \<Rightarrow> cursor \<Rightarrow> event list"
where
  "events path node parent =
     (Enter, (path, node), parent) #
     (case node of
        Program body \<Rightarrow> events_array 0 body (path, node)
      | CallExpression name params \<Rightarrow> events_array 0 params (path, node)
      | _ \<Rightarrow> []) @
     [(Exit, (path, node), parent)]"
| "events_array i [] parent = []"
| "events_array i (child # array) parent =
     events (fst parent @ [i]) child (Some parent) @ events_array (i + 1) array parent"

fun fire :: "'s visitor \<Rightarrow> event \<Rightarrow> 's \<Rightarrow> ('s, 's) exit" where
  "fire visitor (Enter, node, parent) s = call_hook (enter_of (visitor (node_type (snd node)))) node parent s"
| "fire visitor (Exit, node, parent) s = call_hook (exit_of (visitor (node_type (snd node)))) node parent s"

fun run :: "'s visitor \<Rightarrow> event list \<Rightarrow> 's \<Rightarrow> ('s, 's) exit" where
  "run visitor [] s = Inr s"
| "run visitor (ev # evs) s = (case fire visitor ev s of Inl e \<Rightarrow> Inl e | Inr s \<Rightarrow> run visitor evs s)"

fun known_kind :: "node \<Rightarrow> bool" where
  "known_kind (Program body) \<longleftrightarrow> True"
| "known_kind (CallExpression name params) \<longleftrightarrow> True"
| "known_kind (NumberLiteral v) \<longleftrightarrow> True"
| "known_kind (StringLiteral v) \<longleftrightarrow> True"
| "known_kind _ \<longleftrightarrow> False"

definition off_parent :: "path \<Rightarrow> cursor option \<Rightarrow> bool" where
  "off_parent path parent \<longleftrightarrow> (\<forall>p. parent = Some p \<longrightarrow> path \<noteq> fst p)"

fun event_ok :: "event \<Rightarrow> bool" where
  "event_ok (phase, (path, node), parent) \<longleftrightarrow> known_kind node \<and> off_parent path parent"

fun subnodes :: "path \<Rightarrow> node \<Rightarrow> cursor list"
  and subnodes_array :: "nat \<Rightarrow> node list \<Rightarrow> path \<Rightarrow> cursor list"
where
  "subnodes path node =
     (path, node) #
     (case node of
        Program body \<Rightarrow> subnodes_array 0 body path
      | CallExpression name params \<Rightarrow> subnodes_array 0 params path
      | _ \<Rightarrow> [])"
| "subnodes_array i [] path = []"
| "subnodes_array i (child # array) path = subnodes (path @ [i]) child @ subnodes_array (i + 1) array path"

definition trace_hook :: "phase \<Rightarrow> event list hook" where
  "trace_hook phase node parent log = Inr (log @ [(phase, node, parent)])"

definition tracer :: "event list visitor" where
  "tracer type = Some \<lparr>enter = Some (trace_hook Enter), exit = Some (trace_hook Exit)\<rparr>"

definition visited :: "cursor \<Rightarrow> event list \<Rightarrow> bool" where
  "visited cursor log \<longleftrightarrow>
     (\<exists>parent before between after.
        log = before @ (Enter, cursor, parent) # between @ (Exit, cursor, parent) # after)"

definition record_hook :: "string \<Rightarrow> string list hook" where
  "record_hook tag node parent s = Inr (s @ [tag @ node_type (snd node)])"

definition recorder :: "string list visitor" where
  "recorder type = Some \<lparr>enter = Some (record_hook ''>''), exit = Some (record_hook ''<'')\<rparr>"

section \<open>The walk is the run of its events\<close>

lemma run_append:
  "run visitor (xs @ ys) s = (case run visitor xs s of Inl e \<Rightarrow> Inl e | Inr s \<Rightarrow> run visitor ys s)"
  by (induction xs arbitrary: s) (auto split: sum.splits)

lemma run_snoc:
  "run visitor (xs @ [ev]) s = (case run visitor xs s of Inl e \<Rightarrow> Inl e | Inr s \<Rightarrow> fire visitor ev s)"
  by (simp add: run_append split: sum.splits)

declare traverseNode.simps [simp del] events.simps(1) [simp del]

lemma traverse_events_aux:
  "traversable node \<Longrightarrow> traverseNode visitor path node parent s = run visitor (events path node parent) s"
  "list_all traversable array \<Longrightarrow>
     traverseArray visitor i array owner s = run visitor (events_array i array owner) s"
proof (induction visitor path node parent s and visitor i array owner s
    rule: traverseNode_traverseArray.induct)
  case (1 visitor path node parent s)
  then show ?case
    by (cases node) (auto simp: traverseNode.simps events.simps run_snoc split: sum.splits)
next
  case (2 visitor i parent s)
  show ?case by simp
next
  case (3 visitor i child array parent s)
  then show ?case by (auto simp: run_append split: sum.splits)
qed

lemma traverse_returns_traversable:
  "traverseNode visitor path node parent s = Inr s' \<Longrightarrow> traversable node"
  "traverseArray visitor i array owner s = Inr s' \<Longrightarrow> list_all traversable array"
proof (induction visitor path node parent s and visitor i array owner s arbitrary: s' and s'
    rule: traverseNode_traverseArray.induct)
  case (1 visitor path node parent s)
  then show ?case
    by (cases node) (auto simp: traverseNode.simps split: sum.splits)
next
  case (2 visitor i owner s)
  show ?case by simp
next
  case (3 visitor i child array owner s)
  then show ?case by (auto split: sum.splits)
qed

lemma off_parent_simps [simp]:
  "off_parent path None"
  "off_parent (fst owner @ [i]) (Some owner)"
  by (simp_all add: off_parent_def)

lemma run_related:
  assumes "run visitor evs s = Inr s'"
    and refl: "\<And>s. R s s"
    and trans: "\<And>s t u. R s t \<Longrightarrow> R t u \<Longrightarrow> R s u"
    and hooks: "\<And>ev s s'. ev \<in> set evs \<Longrightarrow> fire visitor ev s = Inr s' \<Longrightarrow> R s s'"
  shows "R s s'"
  using assms(1) hooks
proof (induction evs arbitrary: s)
  case Nil
  then show ?case by (simp add: refl)
next
  case (Cons ev evs)
  from Cons.prems(1) obtain t where t: "fire visitor ev s = Inr t" "run visitor evs t = Inr s'"
    by (auto split: sum.splits)
  from t(1) have "R s t" by (intro Cons.prems(2)) simp_all
  moreover from t(2) have "R t s'" by (rule Cons.IH) (auto intro: Cons.prems(2))
  ultimately show ?case by (rule trans)
qed

lemma events_ok:
  "traversable node \<Longrightarrow> off_parent path parent \<Longrightarrow> ev \<in> set (events path node parent) \<Longrightarrow> event_ok ev"
  "list_all traversable array \<Longrightarrow> ev \<in> set (events_array i array owner) \<Longrightarrow> event_ok ev"
proof (induction path node parent and i array owner rule: events_events_array.induct)
  case (1 path node parent)
  then show ?case
    by (cases node) (auto simp: events.simps)
next
  case (2 i owner)
  then show ?case by simp
next
  case (3 i child array owner)
  then show ?case by auto
qed

lemma traverse_related_events:
  assumes refl: "\<And>s. R s s"
    and trans: "\<And>s t u. R s t \<Longrightarrow> R t u \<Longrightarrow> R s u"
    and hooks: "\<And>ev s s'. event_ok ev \<Longrightarrow> fire visitor ev s = Inr s' \<Longrightarrow> R s s'"
    and "off_parent path parent"
    and "traverseNode visitor path node parent s = Inr s'"
  shows "R s s'"
proof -
  from assms(5) have t: "traversable node" by (rule traverse_returns_traversable(1))
  with assms(5) have "run visitor (events path node parent) s = Inr s'"
    by (simp add: traverse_events_aux(1))
  then show ?thesis
    by (rule run_related) (auto intro: refl trans hooks events_ok(1) [OF t assms(4)])
qed

lemma traverse_unknown_kind:
  "node_type node \<in> {''ExpressionStatement'', ''Identifier''} \<Longrightarrow>
   call_hook (enter_of (visitor (node_type node))) (path, node) parent s = Inr s1 \<Longrightarrow>
   traverseNode visitor path node parent s = Inl (TypeError (node_type node), s1)"
  by (cases node) (simp_all add: traverseNode.simps)

section \<open>The state when the walk throws\<close>

lemma run_throwsI:
  "run visitor pre s = Inr t \<Longrightarrow> fire visitor ev t = Inl x \<Longrightarrow> run visitor (pre @ ev # post) s = Inl x"
  by (simp add: run_append)

lemma run_throwsD:
  "run visitor evs s = Inl x \<Longrightarrow>
   \<exists>pre ev post t. evs = pre @ ev # post \<and> run visitor pre s = Inr t \<and> fire visitor ev t = Inl x"
proof (induction evs arbitrary: s)
  case Nil
  then show ?case by simp
next
  case (Cons ev evs)
  show ?case
  proof (cases "fire visitor ev s")
    case (Inl y)
    with Cons.prems
    have "ev # evs = [] @ ev # evs \<and> run visitor [] s = Inr s \<and> fire visitor ev s = Inl x"
      by simp
    then show ?thesis by blast
  next
    case (Inr u)
    with Cons.prems have "run visitor evs u = Inl x" by simp
    from Cons.IH [OF this] obtain pre e post t
      where "evs = pre @ e # post" "run visitor pre u = Inr t" "fire visitor e t = Inl x"
      by blast
    with Inr
    have "ev # evs = (ev # pre) @ e # post \<and> run visitor (ev # pre) s = Inr t \<and> fire visitor e t = Inl x"
      by simp
    then show ?thesis by blast
  qed
qed

lemma subnodes_self [simp]: "(path, node) \<in> set (subnodes path node)"
  by (simp add: subnodes.simps)

lemma traverseNode_exits:
  assumes enter: "I (last_state (call_hook (enter_of (visitor (node_type node))) (path, node) parent s))"
    and exit: "\<And>t. I t \<Longrightarrow> I (last_state (call_hook (exit_of (visitor (node_type node))) (path, node) parent t))"
    and children: "\<And>t array. call_hook (enter_of (visitor (node_type node))) (path, node) parent s = Inr t \<Longrightarrow> I t \<Longrightarrow>
      node = Program array \<or> (\<exists>name. node = CallExpression name array) \<Longrightarrow>
      I (last_state (traverseArray visitor 0 array (path, node) t))"
  shows "I (last_state (traverseNode visitor path node parent s))"
proof (cases "call_hook (enter_of (visitor (node_type node))) (path, node) parent s")
  case (Inl x)
  with enter show ?thesis by (simp add: traverseNode.simps)
next
  case (Inr t)
  with enter have t: "I t" by simp
  show ?thesis
  proof (cases node)
    case (Program body)
    with children [OF Inr t, of body] Inr exit show ?thesis
      by (cases "traverseArray visitor 0 body (path, node) t") (simp_all add: traverseNode.simps)
  next
    case (CallExpression name params)
    with children [OF Inr t, of params] Inr exit show ?thesis
      by (cases "traverseArray visitor 0 params (path, node) t") (simp_all add: traverseNode.simps)
  qed (use Inr t exit in \<open>simp_all add: traverseNode.simps\<close>)
qed

lemma traverseArray_exits:
  assumes "I (last_state (traverseNode visitor (fst owner @ [i]) child (Some owner) s))"
    and "\<And>t. traverseNode visitor (fst owner @ [i]) child (Some owner) s = Inr t \<Longrightarrow> I t \<Longrightarrow>
      I (last_state (traverseArray visitor (i + 1) array owner t))"
  shows "I (last_state (traverseArray visitor i (child # array) owner s))"
  using assms by (cases "traverseNode visitor (fst owner @ [i]) child (Some owner) s") simp_all

lemma traverse_exits:
  fixes C :: "cursor set"
  assumes hooks: "\<And>phase cursor parent s. cursor \<in> C \<Longrightarrow> off_parent (fst cursor) parent \<Longrightarrow> I s \<Longrightarrow>
      I (last_state (fire visitor (phase, cursor, parent) s))"
  shows "I s \<Longrightarrow> off_parent path parent \<Longrightarrow> set (subnodes path node) \<subseteq> C \<Longrightarrow>
      I (last_state (traverseNode visitor path node parent s))"
    and "I s \<Longrightarrow> set (subnodes_array i array (fst owner)) \<subseteq> C \<Longrightarrow>
      I (last_state (traverseArray visitor i array owner s))"
  using assms
proof (induction visitor path node parent s and visitor i array owner s
    rule: traverseNode_traverseArray.induct)
  case (1 visitor path node parent s)
  note hooks = "1.prems"(4)
  from "1.prems" have here: "(path, node) \<in> C" by auto
  show ?case
  proof (rule traverseNode_exits)
    from here "1.prems"(1,2) hooks [of "(path, node)" parent s Enter]
    show "I (last_state (call_hook (enter_of (visitor (node_type node))) (path, node) parent s))"
      by simp
  next
    fix t assume "I t"
    with here "1.prems"(2) hooks [of "(path, node)" parent t Exit]
    show "I (last_state (call_hook (exit_of (visitor (node_type node))) (path, node) parent t))"
      by simp
  next
    fix t array
    assume Inr: "call_hook (enter_of (visitor (node_type node))) (path, node) parent s = Inr t"
      and t: "I t" and kind: "node = Program array \<or> (\<exists>name. node = CallExpression name array)"
    from kind "1.prems"(3) have "set (subnodes_array 0 array path) \<subseteq> C"
      by (auto simp: subnodes.simps)
    with kind "1.IH"(1) [OF Inr _ t _ hooks] "1.IH"(2) [OF Inr _ t _ hooks]
    show "I (last_state (traverseArray visitor 0 array (path, node) t))" by auto
  qed
next
  case (2 visitor i owner s)
  then show ?case by simp
next
  case (3 visitor i child array owner s)
  note hooks = "3.prems"(3)
  show ?case
  proof (rule traverseArray_exits)
    from "3.prems"(1,2) "3.IH"(1) [OF _ _ _ hooks]
    show "I (last_state (traverseNode visitor (fst owner @ [i]) child (Some owner) s))" by simp
  next
    fix t assume "traverseNode visitor (fst owner @ [i]) child (Some owner) s = Inr t" and "I t"
    with "3.IH"(2) [OF _ _ _ hooks] "3.prems"(2)
    show "I (last_state (traverseArray visitor (i + 1) array owner t))" by simp
  qed
qed

lemma traversable_subnodes:
  "traversable node \<Longrightarrow> cursor \<in> set (subnodes path node) \<Longrightarrow> \<not> new_call (snd cursor)"
  "list_all traversable array \<Longrightarrow> cursor \<in> set (subnodes_array i array path) \<Longrightarrow> \<not> new_call (snd cursor)"
proof (induction path node and i array path rule: subnodes_subnodes_array.induct)
  case (1 path node)
  then show ?case by (cases node) (auto simp: subnodes.simps)
qed auto

section \<open>Every node is visited\<close>

lemma fire_tracer [simp]: "fire tracer ev log = Inr (log @ [ev])"
  by (cases ev rule: event_ok.cases; cases "fst ev")
    (simp_all add: tracer_def trace_hook_def enter_of_def exit_of_def call_hook_def)

lemma run_tracer: "run tracer evs log = Inr (log @ evs)"
  by (induction evs arbitrary: log) simp_all

lemma visited_append: "visited cursor xs \<or> visited cursor ys \<Longrightarrow> visited cursor (xs @ ys)"
  unfolding visited_def
  by (metis append.assoc append_Cons)

lemma visited_between: "visited cursor evs \<Longrightarrow> visited cursor (ev # evs @ [ev'])"
  unfolding visited_def
  by (metis append.assoc append_Cons)

lemma visited_self: "visited cursor ((Enter, cursor, parent) # evs @ [(Exit, cursor, parent)])"
  unfolding visited_def
  by (metis append_Nil)

lemmas visited_leaf = visited_self [of _ _ "[]", simplified]

declare subnodes.simps [simp del]

lemma events_visit:
  "traversable node \<Longrightarrow> cursor \<in> set (subnodes path node) \<Longrightarrow> visited cursor (events path node parent)"
  "list_all traversable array \<Longrightarrow> cursor \<in> set (subnodes_array i array (fst owner)) \<Longrightarrow>
     visited cursor (events_array i array owner)"
proof (induction path node parent and i array owner rule: events_events_array.induct)
  case (1 path node parent)
  then show ?case
    by (cases node) (auto simp: events.simps subnodes.simps intro: visited_self visited_leaf visited_between)
next
  case (2 i owner)
  then show ?case by simp
next
  case (3 i child array owner)
  then show ?case by (auto intro: visited_append)
qed

lemma run_total:
  "(\<And>ev s. ev \<in> set evs \<Longrightarrow> \<exists>s'. fire visitor ev s = Inr s') \<Longrightarrow> \<exists>s'. run visitor evs s = Inr s'"
proof (induction evs arbitrary: s)
  case (Cons ev evs)
  from Cons.prems [of ev s] obtain t where "fire visitor ev s = Inr t" by auto
  with Cons.IH [of t] Cons.prems show ?case by auto
qed simp

lemma traverse_total:
  "traversable node \<Longrightarrow> off_parent path parent \<Longrightarrow>
   (\<And>ev s. event_ok ev \<Longrightarrow> \<exists>s'. fire visitor ev s = Inr s') \<Longrightarrow>
   \<exists>s'. traverseNode visitor path node parent s = Inr s'"
  by (simp add: traverse_events_aux(1)) (rule run_total, blast intro: events_ok(1))

lemma traverser_traverseNode: "traverser ast visitor s = traverseNode visitor [] ast None s"
  by (simp add: traverser_def)

lemmas traverse_events = traverse_events_aux [folded traverser_traverseNode]

lemmas recorder_eval = recorder_def record_hook_def enter_of_def exit_of_def call_hook_def events.simps

section \<open>The traverser against its specification\<close>

text \<open>
  Claim C5. \<^verbatim>\<open>traverser\<close> is a depth-first walk, entering a node before its children
  and leaving it after them, children from left to right, each with its parent: on a
  tree of programs, calls and literals it runs the hooks of the visitor on the events
  of \<open>events\<close> in that order, stopping at the first hook that throws.
\<close>

theorem traverser_runs_events:
  "traversable ast \<Longrightarrow> traverser ast visitor s = run visitor (events [] ast None) s"
  unfolding traverser_def by (rule traverse_events_aux(1))

theorem traverser_runs_events_witness:
  "traverser (Program [CallExpression ''f'' [NumberLiteral ''1''], StringLiteral ''s'']) recorder [] =
     Inr [''>Program'', ''>CallExpression'', ''>NumberLiteral'', ''<NumberLiteral'', ''<CallExpression'',
          ''>StringLiteral'', ''<StringLiteral'', ''<Program'']"
  using traverser_runs_events [of "Program [CallExpression ''f'' [NumberLiteral ''1''], StringLiteral ''s'']"
      recorder "[]"]
  by (simp add: recorder_eval)

text \<open>
  Claim C34. \<^verbatim>\<open>traverser\<close> returns only on trees made of \<^verbatim>\<open>Program\<close>,
  \<^verbatim>\<open>CallExpression\<close> with \<^verbatim>\<open>params\<close>, \<^verbatim>\<open>NumberLiteral\<close> and \<^verbatim>\<open>StringLiteral\<close>
  nodes: whatever the hooks do, a node of any other shape anywhere in the tree makes
  the walk throw. In particular the trees that the transformer produces cannot be
  walked.
\<close>

theorem traverser_returns_only_on_traversable:
  "traverser ast visitor s = Inr s' \<Longrightarrow> traversable ast"
  unfolding traverser_def by (rule traverse_returns_traversable(1))

theorem traverser_returns_only_on_traversable_witness:
  "traverser (Program [NumberLiteral ''1'']) recorder [] =
     Inr [''>Program'', ''>NumberLiteral'', ''<NumberLiteral'', ''<Program''] \<and>
   traversable (Program [NumberLiteral ''1''])"
proof -
  have h: "traverser (Program [NumberLiteral ''1'']) recorder [] =
      Inr [''>Program'', ''>NumberLiteral'', ''<NumberLiteral'', ''<Program'']"
    by (simp add: traverser_def traverseNode.simps recorder_eval)
  show ?thesis using h traverser_returns_only_on_traversable [OF h] by simp
qed

text \<open>
  A node of kind \<^verbatim>\<open>ExpressionStatement\<close> or \<^verbatim>\<open>Identifier\<close> is refused with
  \<^verbatim>\<open>throw new TypeError(node.type)\<close> (line 175), after its \<^verbatim>\<open>enter\<close> hook has run
  and before its \<^verbatim>\<open>exit\<close> hook.
\<close>

theorem traverser_unknown_kind:
  "node_type ast \<in> {''ExpressionStatement'', ''Identifier''} \<Longrightarrow>
   call_hook (enter_of (visitor (node_type ast))) ([], ast) None s = Inr s1 \<Longrightarrow>
   traverser ast visitor s = Inl (TypeError (node_type ast), s1)"
  unfolding traverser_def by (rule traverse_unknown_kind)

theorem traverser_unknown_kind_witness:
  "traverser (Identifier ''add'') recorder [] = Inl (TypeError ''Identifier'', [''>Identifier''])"
  using traverser_unknown_kind [of "Identifier ''add''" recorder "[]" "[''>Identifier'']"]
  by (simp add: recorder_eval)

text \<open>
  What every hook preserves when it returns, the walk preserves when it returns. The
  hooks need to preserve the property only on the events that a walk can fire: on
  nodes of the four kinds that are walked, with a parent that is another node.
\<close>

theorem traverser_preserves_on_return:
  assumes "\<And>ev s s'. event_ok ev \<Longrightarrow> I s \<Longrightarrow> fire visitor ev s = Inr s' \<Longrightarrow> I s'"
    and "I s" and "traverser ast visitor s = Inr s'"
  shows "I s'"
  using traverse_related_events [of "\<lambda>s s'. I s \<longrightarrow> I s'" visitor "[]" None ast s s'] assms
  by (auto simp: traverser_def)

text \<open>
  Claim C35. What every hook preserves, the walk preserves, at every exit and on
  every tree: a property of the state that holds before \<^verbatim>\<open>traverser\<close> is called, and
  that no hook of the visitor breaks on a node of the tree, whether the hook returns
  or throws, holds of the state when \<^verbatim>\<open>traverser\<close> returns and of the state in which
  it throws. An exception of the walk itself is thrown in the state that the hooks
  called so far have left.
\<close>

theorem traverser_preserves:
  assumes "\<And>phase cursor parent s. cursor \<in> set (subnodes [] ast) \<Longrightarrow> off_parent (fst cursor) parent \<Longrightarrow>
      I s \<Longrightarrow> I (last_state (fire visitor (phase, cursor, parent) s))"
    and "I s"
  shows "I (last_state (traverser ast visitor s))"
  unfolding traverser_def
  by (rule traverse_exits(1) [where C = "set (subnodes [] ast)"]) (use assms in auto)

theorem traverser_preserves_witness:
  "[] \<notin> set (last_state (traverser (Program [NumberLiteral ''1'', Identifier ''x'']) recorder []))"
proof -
  have "[] \<notin> set s \<Longrightarrow> [] \<notin> set (last_state (fire recorder ev s))" for ev s
    by (cases ev; cases "fst ev") (auto simp: recorder_eval)
  then show ?thesis
    using traverser_preserves [where ast = "Program [NumberLiteral ''1'', Identifier ''x'']"
        and I = "\<lambda>s. [] \<notin> set s" and visitor = recorder and s = "[]"]
    by simp
qed

text \<open>
  Claim C16. The walk returns when the hooks do: on a tree of programs, calls and
  literals, if no hook of the visitor throws on an event of the tree, in whatever
  state it is called, then \<^verbatim>\<open>traverser\<close> returns. The walk itself never fails on such a
  tree and never stops before the last \<^verbatim>\<open>exit\<close>.
\<close>

theorem traverser_returns_when_hooks_return:
  "traversable ast \<Longrightarrow>
   (\<And>ev s. ev \<in> set (events [] ast None) \<Longrightarrow> \<exists>s'. fire visitor ev s = Inr s') \<Longrightarrow>
   \<exists>s'. traverser ast visitor s = Inr s'"
  by (simp add: traverser_def traverse_events_aux(1) run_total)

theorem traverser_returns_when_hooks_return_witness:
  "\<exists>s'. traverser (Program [CallExpression ''f'' [NumberLiteral ''1'']]) tracer [] = Inr s'"
  using traverser_returns_when_hooks_return [of "Program [CallExpression ''f'' [NumberLiteral ''1'']]" tracer "[]"]
  by simp

text \<open>
  Claim C15. Every node of the tree is visited: a visitor that only records the calls
  of its hooks sees, for each node of a tree of programs, calls and literals,
  \<^verbatim>\<open>enter\<close> called on that node and, later, \<^verbatim>\<open>exit\<close> called on it with the same
  parent. No node is skipped and no node is left open.
\<close>

theorem traverser_visits_every_node:
  "traversable ast \<Longrightarrow> cursor \<in> set (subnodes [] ast) \<Longrightarrow>
   \<exists>log. traverser ast tracer [] = Inr log \<and> visited cursor log"
  by (simp add: traverser_def traverse_events_aux(1) run_tracer events_visit(1))

theorem traverser_visits_every_node_witness:
  "\<exists>log. traverser (Program [CallExpression ''f'' [NumberLiteral ''1'']]) tracer [] = Inr log \<and>
     visited ([0, 0], NumberLiteral ''1'') log"
  using traverser_visits_every_node [of "Program [CallExpression ''f'' [NumberLiteral ''1'']]"
      "([0, 0], NumberLiteral ''1'')"]
  by (simp add: subnodes.simps)

end
