(* ===== verification/Transformer.thy ===== *)
theory Transformer
  imports Traverser "HOL-Library.Sublist"
begin

text \<open>
  The transformer of \<^verbatim>\<open>src/tiny-compiler.js\<close> (lines 186 to 240). It builds the new
  tree by pushing onto arrays that are reachable from two places: from the new tree,
  as \<^verbatim>\<open>body\<close> or \<^verbatim>\<open>arguments\<close>, and from the old tree, as the field \<^verbatim>\<open>_context\<close>
  that the hooks store on its nodes. The model keeps these arrays in a store:

  \<^item> \<open>arrays\<close> is the list of the arrays allocated so far, an address is an index
    into it, and a new object (\<open>tnode\<close>) refers to its \<^verbatim>\<open>body\<close> or \<^verbatim>\<open>arguments\<close> by
    address. The objects themselves are never assigned to after they are built, so
    they are values.
  \<^item> \<open>contexts\<close> maps the path of a node of the old tree to the address in its
    \<^verbatim>\<open>_context\<close> field; in \<open>empty_store\<close> no node has one, as in a tree that the
    parser has just returned.
  \<^item> \<open>context_push\<close> is \<^verbatim>\<open>parent._context.push(x)\<close>, \<open>TypeError_undefined\<close> when
    \<^verbatim>\<open>parent\<close> is \<^verbatim>\<open>null\<close> or has no \<^verbatim>\<open>_context\<close>. \<open>call_enter\<close> has assigned the
    \<^verbatim>\<open>_context\<close> of its node when it reads its parent, so it throws in the store with
    that field.
  \<^item> The three hooks are defined on the nodes that the visitor can hand them, which
    are those of their own kind. \<open>call_enter\<close> is not specified on a
    \<^verbatim>\<open>CallExpression\<close> node without \<^verbatim>\<open>name\<close> and \<^verbatim>\<open>params\<close>; the walk throws
    right after the hook on such a node.
  \<^item> \<open>transformer_in h\<close> is the function called in the store \<open>h\<close>. \<open>fresh_program\<close> is
    lines 187 to 193: the array of \<^verbatim>\<open>newAst.body\<close> is allocated and the \<^verbatim>\<open>_context\<close> of
    the root is assigned. The call returns the tree that \<^verbatim>\<open>newAst\<close> denotes in the final
    store, read by \<open>snapshot\<close>, together with that store; when a hook or the walk
    throws, it throws with the store that had been reached. Following an address costs
    \<open>snapshot\<close> one unit of fuel, and the fuel is the number of arrays; \<open>Diverges\<close> would
    be a new tree that is not a tree, which theory \<open>Store_Invariant\<close> excludes.
  \<^item> \<open>transformer\<close> is the call on a tree that no earlier call has seen, in
    \<open>empty_store\<close>, with the store dropped from its result.

  The specification is \<open>transform_spec\<close>, a recursive function from old trees to new
  trees. \<open>items\<close> and \<open>allocated\<close> describe the store that the walk builds,
  \<open>traverseNode_effect\<close> and \<open>traverseArray_effect\<close> show that it is built, and
  \<open>snapshot_item\<close> reads it back.
\<close>

section \<open>The store\<close>

type_synonym addr = nat

datatype tnode =
    TProgram addr
  | TExpressionStatement tnode
  | TCallExpression tnode addr
  | TIdentifier string
  | TNumberLiteral string
  | TStringLiteral string

record store =
  arrays :: "tnode list list"
  contexts :: "path \<rightharpoonup> addr"

definition context_push :: "cursor option \<Rightarrow> tnode \<Rightarrow> store \<Rightarrow> (store, store) exit" where
  "context_push parent x h =
     (case parent of
        None \<Rightarrow> Inl (TypeError_undefined, h)
      | Some (parent_path, parent_node) \<Rightarrow>
         (case contexts h parent_path of
            None \<Rightarrow> Inl (TypeError_undefined, h)
          | Some a \<Rightarrow> Inr (h\<lparr>arrays := (arrays h)[a := arrays h ! a @ [x]]\<rparr>)))"

section \<open>The hooks and the transformer\<close>

fun number_enter :: "store hook" where
  "number_enter (path, NumberLiteral v) parent h = context_push parent (TNumberLiteral v) h"

fun string_enter :: "store hook" where
  "string_enter (path, StringLiteral v) parent h = context_push parent (TStringLiteral v) h"

fun call_enter :: "store hook" where
  "call_enter (path, CallExpression name params) parent h =
     (let arguments = length (arrays h);
          expression = TCallExpression (TIdentifier name) arguments;
          h = h\<lparr>arrays := arrays h @ [[]], contexts := (contexts h)(path \<mapsto> arguments)\<rparr>
      in case parent of
           None \<Rightarrow> Inl (TypeError_undefined, h)
         | Some (parent_path, parent_node) \<Rightarrow>
             context_push parent
               (if node_type parent_node \<noteq> ''CallExpression'' then TExpressionStatement expression
                else expression) h)"

definition transformer_visitor :: "store visitor" where
  "transformer_visitor type =
     (if type = ''NumberLiteral'' then Some \<lparr>enter = Some number_enter, exit = None\<rparr>
      else if type = ''StringLiteral'' then Some \<lparr>enter = Some string_enter, exit = None\<rparr>
      else if type = ''CallExpression'' then Some \<lparr>enter = Some call_enter, exit = None\<rparr>
      else None)"

definition empty_store :: store where
  "empty_store = \<lparr>arrays = [], contexts = Map.empty\<rparr>"

definition fresh_program :: "store \<Rightarrow> store" where
  "fresh_program h = h\<lparr>arrays := arrays h @ [[]], contexts := (contexts h)([] \<mapsto> length (arrays h))\<rparr>"

abbreviation initial_store :: store where
  "initial_store \<equiv> fresh_program empty_store"

fun snapshot :: "nat \<Rightarrow> tnode list list \<Rightarrow> tnode \<Rightarrow> node option"
  and snapshot_array :: "nat \<Rightarrow> tnode list list \<Rightarrow> addr \<Rightarrow> node list option"
where
  "snapshot fuel heap (TNumberLiteral v) = Some (NumberLiteral v)"
| "snapshot fuel heap (TStringLiteral v) = Some (StringLiteral v)"
| "snapshot fuel heap (TIdentifier name) = Some (Identifier name)"
| "snapshot fuel heap (TExpressionStatement expression) =
     map_option ExpressionStatement (snapshot fuel heap expression)"
| "snapshot fuel heap (TCallExpression callee arguments) =
     (case snapshot fuel heap callee of
        None \<Rightarrow> None
      | Some c \<Rightarrow> map_option (NewCallExpression c) (snapshot_array fuel heap arguments))"
| "snapshot fuel heap (TProgram body) = map_option Program (snapshot_array fuel heap body)"
| "snapshot_array 0 heap a = None"
| "snapshot_array (Suc fuel) heap a =
     (case js_index heap a of
        None \<Rightarrow> None
      | Some items \<Rightarrow> those (map (snapshot fuel heap) items))"

definition transformer_in :: "store \<Rightarrow> node \<Rightarrow> (store, node \<times> store) exit option" where
  "transformer_in h ast =
     (let newAst = TProgram (length (arrays h))
      in case traverser ast transformer_visitor (fresh_program h) of
           Inl thrown \<Rightarrow> Throws thrown
         | Inr h' \<Rightarrow> map_option (\<lambda>tree. Inr (tree, h')) (snapshot (length (arrays h')) (arrays h') newAst))"

definition transformer :: "node \<Rightarrow> node outcome" where
  "transformer ast = map_outcome fst (map_option uncaught (transformer_in empty_store ast))"

section \<open>Specification\<close>

fun transform_expression :: "node \<Rightarrow> node" where
  "transform_expression (CallExpression name params) =
     NewCallExpression (Identifier name) (map transform_expression params)"
| "transform_expression node = node"

fun transform_statement :: "node \<Rightarrow> node" where
  "transform_statement (CallExpression name params) =
     ExpressionStatement (transform_expression (CallExpression name params))"
| "transform_statement node = transform_expression node"

definition transform_spec :: "node list \<Rightarrow> node" where
  "transform_spec body = Program (map transform_statement body)"

section \<open>The store that the walk builds\<close>

fun calls :: "node \<Rightarrow> nat" where
  "calls (CallExpression name params) = Suc (sum_list (map calls params))"
| "calls node = 0"

definition wrap :: "bool \<Rightarrow> tnode \<Rightarrow> tnode" where
  "wrap nested expression = (if nested then expression else TExpressionStatement expression)"

fun item :: "bool \<Rightarrow> addr \<Rightarrow> node \<Rightarrow> tnode" where
  "item nested fresh (NumberLiteral v) = TNumberLiteral v"
| "item nested fresh (StringLiteral v) = TStringLiteral v"
| "item nested fresh (CallExpression name params) = wrap nested (TCallExpression (TIdentifier name) fresh)"

fun items :: "bool \<Rightarrow> addr \<Rightarrow> node list \<Rightarrow> tnode list" where
  "items nested fresh [] = []"
| "items nested fresh (node # array) = item nested fresh node # items nested (fresh + calls node) array"

fun allocated :: "addr \<Rightarrow> node \<Rightarrow> tnode list list"
  and allocated_array :: "addr \<Rightarrow> node list \<Rightarrow> tnode list list"
where
  "allocated fresh (CallExpression name params) =
     items True (Suc fresh) params # allocated_array (Suc fresh) params"
| "allocated fresh (Program body) = []"
| "allocated fresh (NumberLiteral v) = []"
| "allocated fresh (StringLiteral v) = []"
| "allocated fresh (ExpressionStatement expression) = []"
| "allocated fresh (NewCallExpression callee arguments) = []"
| "allocated fresh (Identifier name) = []"
| "allocated_array fresh [] = []"
| "allocated_array fresh (node # array) = allocated fresh node @ allocated_array (fresh + calls node) array"

definition target :: "bool \<Rightarrow> node \<Rightarrow> node" where
  "target nested node = (if nested then transform_expression node else transform_statement node)"

fun holds_at :: "tnode list list \<Rightarrow> addr \<Rightarrow> tnode list list \<Rightarrow> bool" where
  "holds_at heap n [] \<longleftrightarrow> True"
| "holds_at heap n (xs # new) \<longleftrightarrow> js_index heap n = Some xs \<and> holds_at heap (Suc n) new"

definition pushed :: "tnode list list \<Rightarrow> addr \<Rightarrow> tnode list \<Rightarrow> tnode list list \<Rightarrow> tnode list list" where
  "pushed heap a xs new = heap[a := heap ! a @ xs] @ new"

definition nested_in :: "cursor \<Rightarrow> bool" where
  "nested_in parent \<longleftrightarrow> node_type (snd parent) = ''CallExpression''"

section \<open>Effect of the walk on the store\<close>

lemma length_allocated [simp]:
  "length (allocated fresh node) = calls node"
  "length (allocated_array fresh array) = sum_list (map calls array)"
  by (induction fresh node and fresh array rule: allocated_allocated_array.induct) simp_all

lemma length_pushed [simp]: "length (pushed heap a xs new) = length heap + length new"
  by (simp add: pushed_def)

lemma pushed_nothing [simp]: "a < length heap \<Longrightarrow> pushed heap a [] [] = heap"
  by (simp add: pushed_def)

lemma pushed_pushed:
  "a < length heap \<Longrightarrow>
   pushed (pushed heap a xs new) a ys new' = pushed heap a (xs @ ys) (new @ new')"
  by (simp add: pushed_def nth_append list_update_append)

lemma pushed_fresh:
  "a < length heap \<Longrightarrow>
   pushed (pushed heap a xs [[]]) (length heap) ys new = pushed heap a xs (ys # new)"
  by (simp add: pushed_def nth_append list_update_append)

lemma context_push_Some:
  "contexts h (fst parent) = Some a \<Longrightarrow>
   context_push (Some parent) x h = Inr (h\<lparr>arrays := pushed (arrays h) a [x] []\<rparr>)"
  by (cases parent) (simp add: context_push_def pushed_def)

lemma call_enter_Some:
  "contexts h (fst parent) = Some a \<Longrightarrow> a < length (arrays h) \<Longrightarrow> path \<noteq> fst parent \<Longrightarrow>
   call_enter (path, CallExpression name params) (Some parent) h =
     Inr (h\<lparr>arrays := pushed (arrays h) a
              [item (nested_in parent) (length (arrays h)) (CallExpression name params)] [[]],
            contexts := (contexts h)(path \<mapsto> length (arrays h))\<rparr>)"
  by (cases parent)
    (simp add: call_enter.simps context_push_def pushed_def wrap_def nested_in_def Let_def
      list_update_append nth_append)

lemma initial_store_simps [simp]:
  "arrays initial_store = [[]]" "contexts initial_store = [[] \<mapsto> 0]"
  by (simp_all add: fresh_program_def empty_store_def)

lemma transformer_unfold:
  "transformer ast =
     (case traverser ast transformer_visitor initial_store of
        Inl (e, h) \<Rightarrow> Throws e
      | Inr h \<Rightarrow> map_option Inr (snapshot (length (arrays h)) (arrays h) (TProgram 0)))"
  by (simp add: transformer_def transformer_in_def map_outcome_def option.map_comp comp_def empty_store_def
      split: sum.splits prod.splits)

lemma transformer_visitor_simps [simp]:
  "enter_of (transformer_visitor ''NumberLiteral'') = Some number_enter"
  "enter_of (transformer_visitor ''StringLiteral'') = Some string_enter"
  "enter_of (transformer_visitor ''CallExpression'') = Some call_enter"
  "enter_of (transformer_visitor ''Program'') = None"
  "enter_of (transformer_visitor ''ExpressionStatement'') = None"
  "enter_of (transformer_visitor ''Identifier'') = None"
  "exit_of (transformer_visitor type) = None"
  by (simp_all add: transformer_visitor_def enter_of_def exit_of_def)

lemma traverseNode_transformer:
  "traverseNode transformer_visitor path (NumberLiteral v) parent h = context_push parent (TNumberLiteral v) h"
  "traverseNode transformer_visitor path (StringLiteral v) parent h = context_push parent (TStringLiteral v) h"
  "traverseNode transformer_visitor path (CallExpression name params) parent h =
     (case call_enter (path, CallExpression name params) parent h of
        Inl e \<Rightarrow> Inl e
      | Inr h \<Rightarrow> traverseArray transformer_visitor 0 params (path, CallExpression name params) h)"
  "traverseNode transformer_visitor path (Program body) parent h =
     traverseArray transformer_visitor 0 body (path, Program body) h"
  by (simp_all add: traverseNode.simps call_hook_def split: sum.splits)

declare call_enter.simps [simp del]

definition effect :: "store \<Rightarrow> addr \<Rightarrow> tnode list \<Rightarrow> tnode list list \<Rightarrow> (path \<Rightarrow> bool) \<Rightarrow> store \<Rightarrow> bool" where
  "effect h a xs new touched h' \<longleftrightarrow>
     arrays h' = pushed (arrays h) a xs new \<and> (\<forall>q. \<not> touched q \<longrightarrow> contexts h' q = contexts h q)"

lemma traverseArray_effect_aux:
  assumes each: "\<And>child path parent h a. child \<in> set array \<Longrightarrow> contexts h (fst parent) = Some a \<Longrightarrow>
      a < length (arrays h) \<Longrightarrow> \<not> prefix path (fst parent) \<Longrightarrow>
      \<exists>h'. traverseNode transformer_visitor path child (Some parent) h = Inr h' \<and>
        effect h a [item (nested_in parent) (length (arrays h)) child] (allocated (length (arrays h)) child)
          (prefix path) h'"
    and "contexts h (fst owner) = Some a" "a < length (arrays h)"
  shows "\<exists>h'. traverseArray transformer_visitor i array owner h = Inr h' \<and>
      effect h a (items (nested_in owner) (length (arrays h)) array) (allocated_array (length (arrays h)) array)
        (\<lambda>q. \<exists>j. prefix (fst owner @ [j]) q) h'"
  using assms
proof (induction array arbitrary: i h)
  case Nil
  then show ?case by (simp add: effect_def)
next
  case (Cons child array)
  from Cons.prems(1) [of child h owner a "fst owner @ [i]"] Cons.prems(2,3)
  obtain h1 where h1: "traverseNode transformer_visitor (fst owner @ [i]) child (Some owner) h = Inr h1"
    "effect h a [item (nested_in owner) (length (arrays h)) child] (allocated (length (arrays h)) child)
      (prefix (fst owner @ [i])) h1"
    by auto
  with Cons.prems(2,3) have c1: "contexts h1 (fst owner) = Some a" "a < length (arrays h1)"
    "length (arrays h1) = length (arrays h) + calls child"
    by (auto simp: effect_def)
  from Cons.IH [of h1 "i + 1"] Cons.prems(1) c1
  obtain h2 where h2: "traverseArray transformer_visitor (i + 1) array owner h1 = Inr h2"
    "effect h1 a (items (nested_in owner) (length (arrays h1)) array) (allocated_array (length (arrays h1)) array)
      (\<lambda>q. \<exists>j. prefix (fst owner @ [j]) q) h2"
    by auto
  with h1 c1 Cons.prems(3) show ?case
    by (auto simp: effect_def pushed_pushed)
qed

lemma outside_subtree: "\<not> prefix path q \<Longrightarrow> q \<noteq> path \<and> (\<forall>j. \<not> prefix (path @ [j]) q)"
  by (auto dest: append_prefixD)

lemma traverseNode_effect:
  "old_expression node \<Longrightarrow> contexts h (fst parent) = Some a \<Longrightarrow> a < length (arrays h) \<Longrightarrow>
   \<not> prefix path (fst parent) \<Longrightarrow>
   \<exists>h'. traverseNode transformer_visitor path node (Some parent) h = Inr h' \<and>
     effect h a [item (nested_in parent) (length (arrays h)) node] (allocated (length (arrays h)) node)
       (prefix path) h'"
proof (induction node arbitrary: h parent a path)
  case (CallExpression name params)
  let ?node = "CallExpression name params"
  let ?h1 = "h\<lparr>arrays := pushed (arrays h) a [item (nested_in parent) (length (arrays h)) ?node] [[]],
      contexts := (contexts h)(path \<mapsto> length (arrays h))\<rparr>"
  from CallExpression.prems have enter: "call_enter (path, ?node) (Some parent) h = Inr ?h1"
    by (intro call_enter_Some) auto
  from CallExpression.IH CallExpression.prems(1)
  obtain h2 where h2: "traverseArray transformer_visitor 0 params (path, ?node) ?h1 = Inr h2"
    "effect ?h1 (length (arrays h)) (items True (length (arrays ?h1)) params)
       (allocated_array (length (arrays ?h1)) params) (\<lambda>q. \<exists>j. prefix (path @ [j]) q) h2"
    using traverseArray_effect_aux [of params ?h1 "(path, ?node)" "length (arrays h)" 0]
    by (auto simp: list_all_iff nested_in_def)
  from h2(2) CallExpression.prems(3) have "effect h a [item (nested_in parent) (length (arrays h)) ?node]
      (allocated (length (arrays h)) ?node) (prefix path) h2"
    by (auto simp: effect_def pushed_fresh dest: outside_subtree)
  with enter h2(1) show ?case by (simp add: traverseNode_transformer)
qed (auto simp: traverseNode_transformer context_push_Some effect_def)

lemma traverseArray_effect:
  "list_all old_expression array \<Longrightarrow> contexts h (fst owner) = Some a \<Longrightarrow> a < length (arrays h) \<Longrightarrow>
   \<exists>h'. traverseArray transformer_visitor i array owner h = Inr h' \<and>
     effect h a (items (nested_in owner) (length (arrays h)) array) (allocated_array (length (arrays h)) array)
       (\<lambda>q. \<exists>j. prefix (fst owner @ [j]) q) h'"
  by (rule traverseArray_effect_aux) (auto simp: list_all_iff intro: traverseNode_effect)

section \<open>Reading the new tree back\<close>

lemma those_Cons_Some:
  "x = Some y \<Longrightarrow> those xs = Some ys \<Longrightarrow> those (x # xs) = Some (y # ys)"
  by simp

lemma holds_at_append [simp]:
  "holds_at heap n (xs @ ys) \<longleftrightarrow> holds_at heap n xs \<and> holds_at heap (n + length xs) ys"
  by (induction xs arbitrary: n) auto

lemma holds_at_self: "holds_at (pre @ xs @ post) (length pre) xs"
proof (induction xs arbitrary: pre)
  case (Cons x xs)
  from Cons [of "pre @ [x]"] show ?case by (simp add: js_index_append_right)
qed simp

lemma snapshot_items_aux:
  assumes each: "\<And>child n. child \<in> set array \<Longrightarrow> holds_at heap n (allocated n child) \<Longrightarrow>
      snapshot fuel heap (item nested n child) = Some (target nested child)"
    and "holds_at heap n (allocated_array n array)"
  shows "those (map (snapshot fuel heap) (items nested n array)) = Some (map (target nested) array)"
  using assms
proof (induction array arbitrary: n)
  case Nil
  show ?case by simp
next
  case (Cons child array)
  from Cons.prems have "snapshot fuel heap (item nested n child) = Some (target nested child)"
    by simp
  moreover from Cons.prems
  have "those (map (snapshot fuel heap) (items nested (n + calls child) array)) = Some (map (target nested) array)"
    by (intro Cons.IH) simp_all
  ultimately show ?case by (simp add: those_Cons_Some)
qed

lemma snapshot_item:
  "old_expression node \<Longrightarrow> holds_at heap n (allocated n node) \<Longrightarrow> calls node \<le> fuel \<Longrightarrow>
   snapshot fuel heap (item nested n node) = Some (target nested node)"
proof (induction node arbitrary: n fuel nested)
  case (CallExpression name params)
  then obtain f where f: "fuel = Suc f" "sum_list (map calls params) \<le> f"
    by (cases fuel) auto
  have "calls child \<le> f" if "child \<in> set params" for child
    using that f(2) member_le_sum_list [of "calls child" "map calls params"] by auto
  with CallExpression.IH CallExpression.prems(1,2)
  have "those (map (snapshot f heap) (items True (Suc n) params)) = Some (map (target True) params)"
    by (intro snapshot_items_aux) (auto simp: list_all_iff)
  with CallExpression.prems(2) f(1) show ?case
    by (simp add: wrap_def target_def)
qed (simp_all add: target_def)

lemma snapshot_items:
  "list_all old_expression array \<Longrightarrow> holds_at heap n (allocated_array n array) \<Longrightarrow>
   sum_list (map calls array) \<le> fuel \<Longrightarrow>
   those (map (snapshot fuel heap) (items nested n array)) = Some (map (target nested) array)"
proof (rule snapshot_items_aux)
  fix child m
  assume "list_all old_expression array" "sum_list (map calls array) \<le> fuel" "child \<in> set array"
    "holds_at heap m (allocated m child)"
  then show "snapshot fuel heap (item nested m child) = Some (target nested child)"
    using member_le_sum_list [of "calls child" "map calls array"]
    by (intro snapshot_item) (auto simp: list_all_iff)
qed

lemma transformer_in_Program:
  assumes "list_all old_expression body"
  shows "\<exists>h'. transformer_in h (Program body) = Returns (transform_spec body, h') \<and>
     arrays h' = arrays h @ items False (Suc (length (arrays h))) body #
       allocated_array (Suc (length (arrays h))) body \<and>
     contexts h' [] = Some (length (arrays h))"
proof -
  let ?n = "length (arrays h)"
  let ?new = "items False (Suc ?n) body # allocated_array (Suc ?n) body"
  from assms obtain h' where h': "traverser (Program body) transformer_visitor (fresh_program h) = Inr h'"
    "arrays h' = arrays h @ ?new" "contexts h' [] = Some ?n"
    using traverseArray_effect [of body "fresh_program h" "([], Program body)" ?n 0]
    by (auto simp: traverser_def traverseNode_transformer fresh_program_def effect_def pushed_def nested_in_def)
  have "holds_at (arrays h @ ?new) (Suc ?n) (allocated_array (Suc ?n) body)"
    using holds_at_self [of "arrays h @ [items False (Suc ?n) body]" "allocated_array (Suc ?n) body" "[]"] by simp
  with assms have "those (map (snapshot (?n + sum_list (map calls body)) (arrays h @ ?new)) (items False (Suc ?n) body)) =
      Some (map (target False) body)"
    by (intro snapshot_items) simp_all
  with h' show ?thesis
    by (simp add: transformer_in_def transform_spec_def target_def js_index_append_right [of _ _ 0, simplified]
        cong: map_cong)
qed

lemma transformer_Program:
  "list_all old_expression body \<Longrightarrow> transformer (Program body) = Returns (transform_spec body)"
  using transformer_in_Program [of body empty_store] by (auto simp: transformer_def)

section \<open>Other roots and other trees\<close>

lemma context_push_throws: "context_push parent x h = Inl thrown \<Longrightarrow> thrown = (TypeError_undefined, h)"
  by (auto simp: context_push_def split: option.splits prod.splits)

lemma call_enter_root:
  "call_enter (path, CallExpression name params) None h =
     Inl (TypeError_undefined, h\<lparr>arrays := arrays h @ [[]], contexts := (contexts h)(path \<mapsto> length (arrays h))\<rparr>)"
  by (simp add: call_enter.simps Let_def)

lemma transformer_in_expression:
  "transformer_in h (NumberLiteral v) = Throws (TypeError_undefined, fresh_program h)"
  "transformer_in h (StringLiteral v) = Throws (TypeError_undefined, fresh_program h)"
  "transformer_in h (CallExpression name params) =
     Throws (TypeError_undefined,
       h\<lparr>arrays := arrays h @ [[], []], contexts := (contexts h)([] \<mapsto> Suc (length (arrays h)))\<rparr>)"
  by (simp_all add: transformer_in_def traverser_def traverseNode_transformer context_push_def
      call_enter_root fresh_program_def)

lemma transformer_expression:
  "old_expression node \<Longrightarrow> \<exists>h'. traverser node transformer_visitor h = Inl (TypeError_undefined, h')"
  by (cases node) (simp_all add: traverser_def traverseNode_transformer context_push_def call_enter_root)

lemma transform_new_expression: "old_expression node \<Longrightarrow> new_expression (transform_expression node)"
  by (induction node rule: old_expression.induct) (auto simp: list_all_iff)

lemma transform_new_statement: "old_expression node \<Longrightarrow> new_statement (transform_statement node)"
  using transform_new_expression [of node] by (cases node) auto

lemma new_program_transform_spec: "list_all old_expression body \<Longrightarrow> new_program (transform_spec body)"
  by (simp add: transform_spec_def list_all_iff transform_new_statement)

lemma transform_statement_traversable:
  "old_expression node \<Longrightarrow> traversable (transform_statement node) \<longleftrightarrow> calls node = 0"
  by (cases node) auto

lemmas transformer_eval = transformer_unfold traverser_def traverseNode_transformer call_enter.simps
  context_push_def fresh_program_def empty_store_def Let_def js_index_def

section \<open>The transformer against its specification\<close>

text \<open>
  Claim C3. On every tree of the parser, \<^verbatim>\<open>transformer\<close> returns the tree that the
  recursive specification \<open>transform_spec\<close> describes: each call becomes a
  \<^verbatim>\<open>CallExpression\<close> with an \<^verbatim>\<open>Identifier\<close> callee and the transformed arguments, in
  order; a call at top level is wrapped in an \<^verbatim>\<open>ExpressionStatement\<close>; literals are
  copied. The pushes through \<^verbatim>\<open>_context\<close> put every new node in the right array.
\<close>

theorem transformer_refines_spec:
  "list_all old_expression body \<Longrightarrow> transformer (Program body) = Returns (transform_spec body)"
  by (rule transformer_Program)

theorem transformer_refines_spec_witness:
  "transformer (Program [CallExpression ''add'' [NumberLiteral ''2'',
       CallExpression ''subtract'' [NumberLiteral ''4'', NumberLiteral ''2'']]]) =
   Returns (Program [ExpressionStatement (NewCallExpression (Identifier ''add'') [NumberLiteral ''2'',
       NewCallExpression (Identifier ''subtract'') [NumberLiteral ''4'', NumberLiteral ''2'']])])"
  using transformer_refines_spec [of "[CallExpression ''add'' [NumberLiteral ''2'',
       CallExpression ''subtract'' [NumberLiteral ''4'', NumberLiteral ''2'']]]"]
  by (simp add: transform_spec_def)

text \<open>
  Claim C10. The store at the end of the walk over a tree of the parser: the array of
  \<^verbatim>\<open>newAst.body\<close> is at address 0 and holds the statements, each call has allocated
  one array for its arguments, in the order in which the calls are entered, and the
  \<^verbatim>\<open>_context\<close> of the root still refers to address 0.
\<close>

theorem transformer_store:
  "list_all old_expression body \<Longrightarrow>
   \<exists>h. traverser (Program body) transformer_visitor initial_store = Inr h \<and>
     arrays h = items False 1 body # allocated_array 1 body \<and> contexts h [] = Some 0"
  using traverseArray_effect [of body initial_store "([], Program body)" 0 0]
  by (auto simp: traverser_def traverseNode_transformer fresh_program_def empty_store_def effect_def pushed_def nested_in_def)

theorem transformer_store_witness:
  "\<exists>h. traverser (Program [CallExpression ''f'' [CallExpression ''g'' [], NumberLiteral ''1'']])
       transformer_visitor initial_store = Inr h \<and>
     arrays h = [[TExpressionStatement (TCallExpression (TIdentifier ''f'') 1)],
                 [TCallExpression (TIdentifier ''g'') 2, TNumberLiteral ''1''], []] \<and>
     contexts h [] = Some 0"
  using transformer_store [of "[CallExpression ''f'' [CallExpression ''g'' [], NumberLiteral ''1'']]"]
  by (simp add: wrap_def numeral_2_eq_2)

text \<open>
  The result has the shape of a new tree: on a tree of the parser,
  \<^verbatim>\<open>transformer\<close> returns a \<^verbatim>\<open>Program\<close> whose statements are literals or
  \<^verbatim>\<open>ExpressionStatement\<close>s around calls, and whose calls have an \<^verbatim>\<open>Identifier\<close> as
  callee and new expressions as arguments.
\<close>

theorem transformer_result_shape:
  "list_all old_expression body \<Longrightarrow>
   \<exists>new_tree. transformer (Program body) = Returns new_tree \<and> new_program new_tree"
  by (simp add: transformer_Program new_program_transform_spec)

theorem transformer_result_shape_witness:
  "\<exists>new_tree. transformer (Program [CallExpression ''f'' [StringLiteral ''x''], NumberLiteral ''1'']) =
     Returns new_tree \<and> new_program new_tree"
  using transformer_result_shape [of "[CallExpression ''f'' [StringLiteral ''x''], NumberLiteral ''1'']"]
  by simp

text \<open>
  \<^verbatim>\<open>transformer\<close> needs a \<^verbatim>\<open>Program\<close> at the root: given an expression
  of the parser, the hook of the root is called with \<^verbatim>\<open>parent\<close> \<^verbatim>\<open>null\<close> and the
  engine throws its \<^verbatim>\<open>TypeError\<close>.
\<close>

theorem transformer_needs_program:
  "old_expression node \<Longrightarrow> transformer node = Throws TypeError_undefined"
  using transformer_expression [of node initial_store] by (auto simp: transformer_unfold)

theorem transformer_needs_program_witness:
  "transformer (CallExpression ''f'' [NumberLiteral ''1'']) = Throws TypeError_undefined"
  using transformer_needs_program [of "CallExpression ''f'' [NumberLiteral ''1'']"] by simp

text \<open>
  \<^verbatim>\<open>transformer\<close> cannot be applied to its own result as soon as the program
  has a call: the walk does not know \<^verbatim>\<open>ExpressionStatement\<close> and throws.
\<close>

theorem transformer_rejects_new_tree:
  "list_all old_expression body \<Longrightarrow> \<not> list_all (\<lambda>node. calls node = 0) body \<Longrightarrow>
   \<exists>e. transformer (transform_spec body) = Throws e"
proof -
  assume "list_all old_expression body" "\<not> list_all (\<lambda>node. calls node = 0) body"
  then have "\<not> traversable (transform_spec body)"
    by (auto simp: transform_spec_def list_all_iff transform_statement_traversable)
  then show ?thesis
    using traverse_returns_traversable(1) [of transformer_visitor "[]" "transform_spec body" None initial_store]
    by (cases "traverser (transform_spec body) transformer_visitor initial_store")
      (auto simp: transformer_unfold traverser_def)
qed

theorem transformer_rejects_new_tree_witness:
  "\<exists>e. transformer (Program [ExpressionStatement (NewCallExpression (Identifier ''f'') [])]) = Throws e"
  using transformer_rejects_new_tree [of "[CallExpression ''f'' []]"]
  by (simp add: transform_spec_def)

text \<open>
  \<^verbatim>\<open>transformer\<close> writes to its input: after the walk the node of a call
  has a \<^verbatim>\<open>_context\<close> field, which refers to the \<^verbatim>\<open>arguments\<close> array of the new call.
  Here the call at index 0 of the body refers to address 1.
\<close>

theorem transformer_annotates_input:
  "map_result (\<lambda>h. (contexts h [0], contexts h [0, 0]))
     (traverser (Program [CallExpression ''f'' [NumberLiteral ''1'']]) transformer_visitor initial_store) =
   Inr (Some 1, None)"
  by (simp add: transformer_eval map_result_def)

end
