(* ===== verification/Store_Invariant.thy ===== *)
theory Store_Invariant
  imports Transformer
begin

text \<open>
  The invariant of the store of the transformer. \<open>store_ok\<close>: an object in the
  array at address \<open>a\<close> refers only to arrays with an address greater than \<open>a\<close>
  that exist (\<open>heap_ok\<close>, \<open>refs_ok\<close>), and every \<^verbatim>\<open>_context\<close> refers to an array that
  exists. Every hook keeps it, when it returns and when it throws, and so
  does the walk; in a store that has it \<open>snapshot\<close> reaches every node with the fuel
  it is given, so \<^verbatim>\<open>transformer\<close> returns or throws.
\<close>

section \<open>Well-formed stores\<close>

fun refs_ok :: "nat \<Rightarrow> addr \<Rightarrow> tnode \<Rightarrow> bool" where
  "refs_ok n a (TProgram b) \<longleftrightarrow> a < b \<and> b < n"
| "refs_ok n a (TExpressionStatement t) \<longleftrightarrow> refs_ok n a t"
| "refs_ok n a (TCallExpression callee b) \<longleftrightarrow> refs_ok n a callee \<and> a < b \<and> b < n"
| "refs_ok n a (TIdentifier name) \<longleftrightarrow> True"
| "refs_ok n a (TNumberLiteral v) \<longleftrightarrow> True"
| "refs_ok n a (TStringLiteral v) \<longleftrightarrow> True"

definition heap_ok :: "tnode list list \<Rightarrow> bool" where
  "heap_ok heap \<longleftrightarrow> (\<forall>a < length heap. list_all (refs_ok (length heap) a) (heap ! a))"

definition store_ok :: "store \<Rightarrow> bool" where
  "store_ok h \<longleftrightarrow> heap_ok (arrays h) \<and> ran (contexts h) \<subseteq> {..< length (arrays h)}"

section \<open>The hooks keep the store well formed\<close>

lemma refs_ok_mono: "refs_ok n a t \<Longrightarrow> n \<le> m \<Longrightarrow> refs_ok m a t"
  by (induction t) auto

lemma list_all_refs_ok_mono: "list_all (refs_ok n a) xs \<Longrightarrow> n \<le> m \<Longrightarrow> list_all (refs_ok m a) xs"
  by (auto simp: list_all_iff intro: refs_ok_mono)

lemma heap_ok_alloc: "heap_ok heap \<Longrightarrow> heap_ok (heap @ [[]])"
  by (auto simp: heap_ok_def nth_append less_Suc_eq intro: list_all_refs_ok_mono)

lemma heap_ok_push:
  "heap_ok heap \<Longrightarrow> a < length heap \<Longrightarrow> refs_ok (length heap) a x \<Longrightarrow>
   heap_ok (heap[a := heap ! a @ [x]])"
  by (auto simp: heap_ok_def nth_list_update)

lemma store_ok_empty: "store_ok empty_store"
  by (simp add: store_ok_def heap_ok_def empty_store_def)

lemma store_ok_context: "store_ok h \<Longrightarrow> contexts h p = Some a \<Longrightarrow> a < length (arrays h)"
  by (auto simp: store_ok_def ran_def)

lemma store_ok_push:
  "store_ok h \<Longrightarrow> contexts h p = Some a \<Longrightarrow> refs_ok (length (arrays h)) a x \<Longrightarrow>
   context_push (Some (p, n)) x h = Inr h' \<Longrightarrow> store_ok h'"
  using store_ok_context [of h p a] by (auto simp: store_ok_def context_push_def heap_ok_push)

lemma store_ok_alloc:
  "store_ok h \<Longrightarrow> store_ok (h\<lparr>arrays := arrays h @ [[]], contexts := (contexts h)(path \<mapsto> length (arrays h))\<rparr>)"
  by (auto simp: store_ok_def heap_ok_alloc ran_def less_Suc_eq)

lemma store_ok_fresh: "store_ok h \<Longrightarrow> store_ok (fresh_program h)"
  unfolding fresh_program_def by (rule store_ok_alloc)

lemma store_ok_literal:
  "store_ok h \<Longrightarrow> context_push parent x h = Inr h' \<Longrightarrow> x = TNumberLiteral v \<or> x = TStringLiteral v \<Longrightarrow>
   store_ok h'"
  by (cases parent)
    (auto simp: context_push_def split: option.splits prod.splits intro: store_ok_push [of h _ _ x])

lemma store_ok_call_enter:
  assumes "store_ok h" "path \<noteq> fst parent"
    and "call_enter (path, CallExpression name params) (Some parent) h = Inr h'"
  shows "store_ok h'"
proof -
  let ?h1 = "h\<lparr>arrays := arrays h @ [[]], contexts := (contexts h)(path \<mapsto> length (arrays h))\<rparr>"
  let ?x = "if node_type (snd parent) \<noteq> ''CallExpression''
    then TExpressionStatement (TCallExpression (TIdentifier name) (length (arrays h)))
    else TCallExpression (TIdentifier name) (length (arrays h))"
  from assms(3) have push: "context_push (Some (fst parent, snd parent)) ?x ?h1 = Inr h'"
    by (cases parent) (simp add: call_enter.simps Let_def)
  then obtain a where a: "contexts h (fst parent) = Some a"
    using assms(2) by (cases parent) (auto simp: context_push_def split: option.splits if_splits)
  with assms(1) have "a < length (arrays h)" by (rule store_ok_context)
  then have "refs_ok (length (arrays ?h1)) a ?x" by simp
  with store_ok_alloc [OF assms(1), of path] a assms(2) push show ?thesis
    by (intro store_ok_push [of ?h1 "fst parent" a ?x "snd parent" h']) simp_all
qed

lemma store_ok_push_exit:
  "store_ok h \<Longrightarrow> x = TNumberLiteral v \<or> x = TStringLiteral v \<Longrightarrow>
   store_ok (last_state (context_push parent x h))"
  by (cases "context_push parent x h") (auto dest: context_push_throws store_ok_literal)

lemma store_ok_call_enter_exit:
  assumes "store_ok h" "off_parent path parent"
  shows "store_ok (last_state (call_enter (path, CallExpression name params) parent h))"
proof (cases "call_enter (path, CallExpression name params) parent h")
  case (Inl thrown)
  let ?h1 = "h\<lparr>arrays := arrays h @ [[]], contexts := (contexts h)(path \<mapsto> length (arrays h))\<rparr>"
  from Inl have "thrown = (TypeError_undefined, ?h1)"
    by (cases parent) (auto simp: call_enter.simps Let_def dest: context_push_throws)
  with Inl store_ok_alloc [OF assms(1), of path] show ?thesis by simp
next
  case (Inr h')
  with assms show ?thesis
    by (cases parent) (auto simp: call_enter_root off_parent_def intro: store_ok_call_enter)
qed

lemma store_ok_fire_exit:
  "store_ok h \<Longrightarrow> \<not> new_call (snd cursor) \<Longrightarrow> off_parent (fst cursor) parent \<Longrightarrow>
   store_ok (last_state (fire transformer_visitor (phase, cursor, parent) h))"
proof (cases phase)
  case Enter
  assume "store_ok h" "\<not> new_call (snd cursor)" "off_parent (fst cursor) parent"
  with Enter show ?thesis
    by (cases cursor; cases "snd cursor")
      (auto simp: call_hook_def intro: store_ok_push_exit store_ok_call_enter_exit)
qed (simp add: call_hook_def)

lemma context_push_length [simp]:
  "length (arrays (last_state (context_push parent x h))) = length (arrays h)"
  by (cases parent) (auto simp: context_push_def split: option.splits)

lemma call_enter_length [simp]:
  "length (arrays (last_state (call_enter (path, CallExpression name params) parent h))) =
     Suc (length (arrays h))"
  by (cases parent) (simp_all add: call_enter.simps Let_def split: prod.splits)

lemma fire_grows:
  "\<not> new_call (snd cursor) \<Longrightarrow>
   length (arrays h) \<le> length (arrays (last_state (fire transformer_visitor (phase, cursor, parent) h)))"
  by (cases phase; cases cursor; cases "snd cursor") (simp_all add: call_hook_def)

lemma walk_exit:
  assumes "store_ok h" "list_all (\<lambda>cursor. \<not> new_call (snd cursor)) (subnodes [] ast)"
  shows "store_ok (last_state (traverser ast transformer_visitor h)) \<and>
    length (arrays h) \<le> length (arrays (last_state (traverser ast transformer_visitor h)))"
  unfolding traverser_def
proof (rule traverse_exits(1) [where C = "{cursor. \<not> new_call (snd cursor)}"
      and I = "\<lambda>s. store_ok s \<and> length (arrays h) \<le> length (arrays s)"])
  fix phase cursor parent s
  assume "cursor \<in> {cursor. \<not> new_call (snd cursor)}" "off_parent (fst cursor) parent"
    "store_ok s \<and> length (arrays h) \<le> length (arrays s)"
  then show "store_ok (last_state (fire transformer_visitor (phase, cursor, parent) s)) \<and>
      length (arrays h) \<le> length (arrays (last_state (fire transformer_visitor (phase, cursor, parent) s)))"
    using fire_grows [of cursor s phase parent] by (auto intro: store_ok_fire_exit)
qed (use assms in \<open>auto simp: list_all_iff\<close>)

lemma those_map_total: "(\<And>x. x \<in> set xs \<Longrightarrow> f x \<noteq> None) \<Longrightarrow> those (map f xs) \<noteq> None"
  by (induction xs) (auto split: option.splits)

lemma snapshot_total:
  assumes "heap_ok heap"
  shows "refs_ok (length heap) a t \<Longrightarrow> a < length heap \<Longrightarrow> length heap - a \<le> Suc fuel \<Longrightarrow>
      snapshot fuel heap t \<noteq> None"
    and "b < length heap \<Longrightarrow> length heap - b \<le> fuel \<Longrightarrow> snapshot_array fuel heap b \<noteq> None"
  using assms
proof (induction fuel heap t and fuel heap b arbitrary: a rule: snapshot_snapshot_array.induct)
  case (8 fuel heap b)
  have "snapshot fuel heap t \<noteq> None" if "t \<in> set (heap ! b)" for t
    using that "8.prems" "8.IH" [of "heap ! b" t b]
    by (auto simp: heap_ok_def list_all_iff js_index_def)
  with "8.prems" show ?case
    by (simp add: js_index_def those_map_total)
qed (auto split: option.splits)

lemma transformer_in_exit:
  assumes "store_ok h" "list_all (\<lambda>cursor. \<not> new_call (snd cursor)) (subnodes [] ast)"
    and "transformer_in h ast = Throws (e, h') \<or> transformer_in h ast = Returns (tree, h')"
  shows "store_ok h' \<and> length (arrays h) < length (arrays h')"
proof -
  from assms(3) have "h' = last_state (traverser ast transformer_visitor (fresh_program h))"
    by (auto simp: transformer_in_def split: sum.splits)
  with walk_exit [OF store_ok_fresh [OF assms(1)] assms(2)] show ?thesis
    by (simp add: fresh_program_def)
qed

lemma transformer_in_total:
  assumes "store_ok h"
  shows "transformer_in h ast \<noteq> Diverges"
proof (cases "traverser ast transformer_visitor (fresh_program h)")
  case (Inr h')
  then have "traversable ast"
    unfolding traverser_def by (rule traverse_returns_traversable(1))
  then have "list_all (\<lambda>cursor. \<not> new_call (snd cursor)) (subnodes [] ast)"
    by (auto simp: list_all_iff dest: traversable_subnodes(1))
  with walk_exit [OF store_ok_fresh [OF assms], of ast] Inr
  have "heap_ok (arrays h')" "length (arrays h) < length (arrays h')"
    by (simp_all add: store_ok_def fresh_program_def)
  then have "snapshot_array (length (arrays h')) (arrays h') (length (arrays h)) \<noteq> None"
    by (intro snapshot_total(2)) simp_all
  with Inr show ?thesis by (simp add: transformer_in_def)
qed (simp add: transformer_in_def)

lemma transformer_total: "transformer ast \<noteq> Diverges"
  using transformer_in_total [OF store_ok_empty, of ast] by (simp add: transformer_def)

section \<open>The invariant and the termination of the transformer\<close>

text \<open>
  Claim C23. \<^verbatim>\<open>transformer\<close> returns or throws on every tree, whatever its shape and
  whatever earlier calls have left in the store: the new tree is a tree. In the store
  that a walk leaves, every object in an array refers only to arrays allocated after
  that array, so reading \<^verbatim>\<open>newAst\<close> follows at most as many references as there are
  arrays.
\<close>

theorem transformer_returns_or_throws:
  "store_ok h \<Longrightarrow> transformer_in h ast \<noteq> Diverges \<and> transformer ast \<noteq> Diverges"
  by (simp add: transformer_in_total transformer_total)

theorem transformer_returns_or_throws_witness:
  "transformer_in empty_store (Program [Identifier ''x'']) \<noteq> Diverges \<and>
   transformer (Program [Identifier ''x'']) \<noteq> Diverges"
  using transformer_returns_or_throws [of empty_store "Program [Identifier ''x'']"]
  by (simp add: store_ok_empty)

text \<open>
  Claim C24. The store is well formed at every exit of \<^verbatim>\<open>transformer\<close>: called in a
  well-formed store on a tree whose calls have \<^verbatim>\<open>name\<close> and \<^verbatim>\<open>params\<close>, it leaves a
  store in which the objects in an array refer only to arrays with a greater address
  that exist and every \<^verbatim>\<open>_context\<close> refers to an array that exists, whether it returns
  or throws; and the store has at least the array of \<^verbatim>\<open>newAst.body\<close> more than
  before.
\<close>

theorem transformer_store_ok:
  "store_ok h \<Longrightarrow> list_all (\<lambda>cursor. \<not> new_call (snd cursor)) (subnodes [] ast) \<Longrightarrow>
   transformer_in h ast = Throws (e, h') \<or> transformer_in h ast = Returns (tree, h') \<Longrightarrow>
   store_ok h' \<and> length (arrays h) < length (arrays h')"
  by (rule transformer_in_exit)

theorem transformer_store_ok_witness:
  "store_ok empty_store \<and>
   list_all (\<lambda>cursor. \<not> new_call (snd cursor))
     (subnodes [] (Program [CallExpression ''f'' [Identifier ''x'']])) \<and>
   transformer_in empty_store (Program [CallExpression ''f'' [Identifier ''x'']]) =
     Throws (TypeError ''Identifier'',
       \<lparr>arrays = [[TExpressionStatement (TCallExpression (TIdentifier ''f'') 1)], []],
        contexts = [[] \<mapsto> 0, [0] \<mapsto> 1]\<rparr>) \<and>
   store_ok \<lparr>arrays = [[TExpressionStatement (TCallExpression (TIdentifier ''f'') 1)], []],
     contexts = [[] \<mapsto> 0, [0] \<mapsto> 1]\<rparr> \<and>
   length (arrays empty_store) < length [[TExpressionStatement (TCallExpression (TIdentifier ''f'') 1)], []]"
proof -
  let ?h' = "\<lparr>arrays = [[TExpressionStatement (TCallExpression (TIdentifier ''f'') 1)], []],
    contexts = [[] \<mapsto> 0, [0] \<mapsto> 1]\<rparr>"
  have walked: "list_all (\<lambda>cursor. \<not> new_call (snd cursor))
      (subnodes [] (Program [CallExpression ''f'' [Identifier ''x'']]))"
    by (simp add: subnodes.simps)
  have thrown: "transformer_in empty_store (Program [CallExpression ''f'' [Identifier ''x'']]) =
      Throws (TypeError ''Identifier'', ?h')"
    by (simp add: transformer_in_def traverser_def traverseNode_transformer traverseNode.simps
        call_enter.simps context_push_def fresh_program_def empty_store_def Let_def call_hook_def)
  from transformer_store_ok [OF store_ok_empty walked disjI1 [OF thrown]] store_ok_empty walked thrown
  show ?thesis by (simp add: empty_store_def)
qed

end
