(* ===== verification/Rerun.thy ===== *)
theory Rerun
  imports Transformer
begin

text \<open>
  \<^verbatim>\<open>transformer\<close> called on a tree that an earlier call has annotated. The fields
  \<^verbatim>\<open>_context\<close> that a call of \<^verbatim>\<open>transformer\<close> stores on the nodes of its input
  (lines 193 and 227 of \<^verbatim>\<open>src/tiny-compiler.js\<close>) stay there when it returns, and they
  refer to the arrays of the tree it returned. \<^verbatim>\<open>src/test.js\<close> calls \<^verbatim>\<open>transformer(ast)\<close>
  twice on the same object (lines 81 and 82), so the second call starts in the store
  that the first one left.

  \<^item> \<open>transformer_in h\<close> of theory \<open>Transformer\<close> is the call in the store \<open>h\<close>:
    \<open>fresh_program\<close> allocates the array of \<^verbatim>\<open>newAst.body\<close> after the arrays that exist
    and assigns the \<^verbatim>\<open>_context\<close> of the root, over the one an earlier call left.
  \<^item> \<open>denotes h t tree\<close>: the new object \<open>t\<close> is the tree \<open>tree\<close> in the store \<open>h\<close>.
  \<^item> \<open>call_contexts\<close> lists the assignments to \<^verbatim>\<open>_context\<close> that a walk makes, in the
    order in which it makes them: one for each call, with the address of its
    \<^verbatim>\<open>arguments\<close>; \<open>assign\<close> makes them.

  \<open>transformer_in_Program\<close> describes the run in any store, \<open>transformer_in_contexts\<close>
  the fields it leaves; \<open>snapshot_mono\<close> is the frame lemma: what an object denotes is
  not changed by arrays allocated later.
\<close>

section \<open>What a new object denotes, and the fields of the old tree\<close>

definition denotes :: "store \<Rightarrow> tnode \<Rightarrow> node \<Rightarrow> bool" where
  "denotes h t tree \<longleftrightarrow> snapshot (length (arrays h)) (arrays h) t = Some tree"

fun call_contexts :: "addr \<Rightarrow> path \<Rightarrow> node \<Rightarrow> (path \<times> addr) list"
  and call_contexts_array :: "addr \<Rightarrow> nat \<Rightarrow> node list \<Rightarrow> path \<Rightarrow> (path \<times> addr) list"
where
  "call_contexts fresh path (CallExpression name params) =
     (path, fresh) # call_contexts_array (Suc fresh) 0 params path"
| "call_contexts fresh path (Program body) = []"
| "call_contexts fresh path (NumberLiteral v) = []"
| "call_contexts fresh path (StringLiteral v) = []"
| "call_contexts fresh path (ExpressionStatement expression) = []"
| "call_contexts fresh path (NewCallExpression callee arguments) = []"
| "call_contexts fresh path (Identifier name) = []"
| "call_contexts_array fresh i [] path = []"
| "call_contexts_array fresh i (node # array) path =
     call_contexts fresh (path @ [i]) node @ call_contexts_array (fresh + calls node) (i + 1) array path"

definition assign :: "(path \<times> addr) list \<Rightarrow> (path \<rightharpoonup> addr) \<Rightarrow> (path \<rightharpoonup> addr)" where
  "assign pairs m = foldl (\<lambda>m (p, a). m(p \<mapsto> a)) m pairs"

section \<open>Arrays allocated later\<close>

lemma those_map_mono:
  "those (map f xs) = Some ys \<Longrightarrow> (\<And>x y. x \<in> set xs \<Longrightarrow> f x = Some y \<Longrightarrow> g x = Some y) \<Longrightarrow>
   those (map g xs) = Some ys"
  by (induction xs arbitrary: ys) (auto split: option.splits)

lemma snapshot_mono:
  "snapshot fuel heap t = Some tree \<Longrightarrow> snapshot (fuel + k) (heap @ later) t = Some tree"
  "snapshot_array fuel heap a = Some trees \<Longrightarrow> snapshot_array (fuel + k) (heap @ later) a = Some trees"
proof (induction fuel heap t and fuel heap a arbitrary: tree and trees rule: snapshot_snapshot_array.induct)
  case (8 fuel heap a)
  then obtain items where items: "js_index heap a = Some items"
    "those (map (snapshot fuel heap) items) = Some trees"
    by (auto split: option.splits)
  from items(2) have "those (map (snapshot (fuel + k) (heap @ later)) items) = Some trees"
    by (rule those_map_mono) (auto intro: "8.IH" items(1))
  with items(1) show ?case
    by (simp add: js_index_append_Some)
qed (auto split: option.splits)

section \<open>The fields that a run leaves\<close>

lemma assign_simps [simp]:
  "assign [] m = m"
  "assign ((p, a) # pairs) m = assign pairs (m(p \<mapsto> a))"
  "assign (pairs @ later) m = assign later (assign pairs m)"
  by (simp_all add: assign_def)

lemma traverseArray_contexts_aux:
  assumes each: "\<And>child path parent h a h'. child \<in> set array \<Longrightarrow> contexts h (fst parent) = Some a \<Longrightarrow>
      a < length (arrays h) \<Longrightarrow> \<not> prefix path (fst parent) \<Longrightarrow>
      traverseNode transformer_visitor path child (Some parent) h = Inr h' \<Longrightarrow>
      contexts h' = assign (call_contexts (length (arrays h)) path child) (contexts h)"
    and "list_all old_expression array" "contexts h (fst owner) = Some a" "a < length (arrays h)"
    and "traverseArray transformer_visitor i array owner h = Inr h'"
  shows "contexts h' = assign (call_contexts_array (length (arrays h)) i array (fst owner)) (contexts h)"
  using assms
proof (induction array arbitrary: i h)
  case Nil
  then show ?case by simp
next
  case (Cons child array)
  from Cons.prems(2-4) traverseNode_effect [of child h owner a "fst owner @ [i]"]
  obtain h1 where h1: "traverseNode transformer_visitor (fst owner @ [i]) child (Some owner) h = Inr h1"
    "contexts h1 (fst owner) = Some a" "a < length (arrays h1)"
    "length (arrays h1) = length (arrays h) + calls child"
    by (auto simp: effect_def)
  from Cons.prems(1) [of child h owner a "fst owner @ [i]" h1] Cons.prems(3,4) h1(1)
  have "contexts h1 = assign (call_contexts (length (arrays h)) (fst owner @ [i]) child) (contexts h)"
    by simp
  moreover from Cons.prems(1,2,5) h1
  have "contexts h' = assign (call_contexts_array (length (arrays h1)) (i + 1) array (fst owner)) (contexts h1)"
    by (intro Cons.IH) auto
  ultimately show ?case using h1(4) by simp
qed

lemma traverseNode_contexts:
  "old_expression node \<Longrightarrow> contexts h (fst parent) = Some a \<Longrightarrow> a < length (arrays h) \<Longrightarrow>
   \<not> prefix path (fst parent) \<Longrightarrow> traverseNode transformer_visitor path node (Some parent) h = Inr h' \<Longrightarrow>
   contexts h' = assign (call_contexts (length (arrays h)) path node) (contexts h)"
proof (induction node arbitrary: h parent a path h')
  case (CallExpression name params)
  let ?node = "CallExpression name params"
  let ?h1 = "h\<lparr>arrays := pushed (arrays h) a [item (nested_in parent) (length (arrays h)) ?node] [[]],
      contexts := (contexts h)(path \<mapsto> length (arrays h))\<rparr>"
  from CallExpression.prems have enter: "call_enter (path, ?node) (Some parent) h = Inr ?h1"
    by (intro call_enter_Some) auto
  with CallExpression.prems(5)
  have "traverseArray transformer_visitor 0 params (path, ?node) ?h1 = Inr h'"
    by (simp add: traverseNode_transformer)
  then have "contexts h' = assign (call_contexts_array (length (arrays ?h1)) 0 params (fst (path, ?node))) (contexts ?h1)"
  proof (rule traverseArray_contexts_aux [rotated 4])
    fix child p owner h0 a0 h0'
    assume "child \<in> set params" "contexts h0 (fst owner) = Some a0" "a0 < length (arrays h0)"
      "\<not> prefix p (fst owner)" "traverseNode transformer_visitor p child (Some owner) h0 = Inr h0'"
    with CallExpression.prems(1)
    show "contexts h0' = assign (call_contexts (length (arrays h0)) p child) (contexts h0)"
      by (intro CallExpression.IH [of child h0 owner a0 p h0']) (simp_all add: list_all_iff)
  next
    show "list_all old_expression params" using CallExpression.prems(1) by simp
    show "contexts ?h1 (fst (path, ?node)) = Some (length (arrays h))" by simp
    show "length (arrays h) < length (arrays ?h1)" by simp
  qed
  then show ?case by simp
qed (auto simp: traverseNode_transformer context_push_Some)

lemma traverseArray_contexts:
  "list_all old_expression array \<Longrightarrow> contexts h (fst owner) = Some a \<Longrightarrow> a < length (arrays h) \<Longrightarrow>
   traverseArray transformer_visitor i array owner h = Inr h' \<Longrightarrow>
   contexts h' = assign (call_contexts_array (length (arrays h)) i array (fst owner)) (contexts h)"
  by (rule traverseArray_contexts_aux) (auto simp: list_all_iff intro: traverseNode_contexts)

lemma transformer_in_contexts:
  assumes "list_all old_expression body" "transformer_in h (Program body) = Returns (tree, h')"
  shows "contexts h' = assign (([], length (arrays h)) #
      call_contexts_array (Suc (length (arrays h))) 0 body []) (contexts h)"
proof -
  from assms(2) have "traverseArray transformer_visitor 0 body ([], Program body) (fresh_program h) = Inr h'"
    by (auto simp: transformer_in_def traverser_def traverseNode_transformer split: sum.splits)
  with assms(1) traverseArray_contexts [of body "fresh_program h" "([], Program body)" "length (arrays h)" 0 h']
  show ?thesis by (simp add: fresh_program_def)
qed

section \<open>What the first tree denotes later\<close>

lemma denotes_later:
  "denotes h t tree \<Longrightarrow> arrays h' = arrays h @ later \<Longrightarrow> denotes h' t tree"
  using snapshot_mono(1) [of "length (arrays h)" "arrays h" t tree "length later" later]
  by (simp add: denotes_def)

lemmas rerun_eval = transformer_in_def fresh_program_def empty_store_def denotes_def traverser_def
  traverseNode_transformer call_enter.simps context_push_def Let_def js_index_def

section \<open>The second call\<close>

text \<open>
  Claim C14. \<^verbatim>\<open>transformer\<close> does not depend on the annotations that earlier calls left
  on its input: in every store, whatever \<^verbatim>\<open>_context\<close> fields the nodes of a tree of the
  parser carry, the call returns the tree of the specification \<open>transform_spec\<close>, and
  the arrays that existed before the call are the same after it. The root's field is
  assigned at line 193 and the field of a call at line 227, before any of its
  arguments is visited, so no stale field is ever read.
\<close>

theorem transformer_ignores_annotations:
  "list_all old_expression body \<Longrightarrow>
   \<exists>h'. transformer_in h (Program body) = Returns (transform_spec body, h') \<and>
     prefix (arrays h) (arrays h')"
  using transformer_in_Program [of body h] by auto

theorem transformer_ignores_annotations_witness:
  "\<exists>h'. transformer_in \<lparr>arrays = [[TNumberLiteral ''7'']], contexts = [[] \<mapsto> 0, [0] \<mapsto> 0]\<rparr>
       (Program [CallExpression ''f'' [NumberLiteral ''1'']]) =
     Returns (Program [ExpressionStatement (NewCallExpression (Identifier ''f'') [NumberLiteral ''1''])], h') \<and>
     prefix [[TNumberLiteral ''7'']] (arrays h')"
  using transformer_ignores_annotations [of "[CallExpression ''f'' [NumberLiteral ''1'']]"
      "\<lparr>arrays = [[TNumberLiteral ''7'']], contexts = [[] \<mapsto> 0, [0] \<mapsto> 0]\<rparr>"]
  by (simp add: transform_spec_def)

text \<open>
  Claim C22. Two calls on the same tree, as in lines 81 and 82 of \<^verbatim>\<open>src/test.js\<close>: both
  return the tree of the specification, and the tree that the first call returned is
  not changed by the second, although the \<^verbatim>\<open>_context\<close> fields that the first call left
  on the input refer to its arrays.
\<close>

theorem transformer_twice:
  "list_all old_expression body \<Longrightarrow>
   \<exists>h1 h2. transformer_in empty_store (Program body) = Returns (transform_spec body, h1) \<and>
     transformer_in h1 (Program body) = Returns (transform_spec body, h2) \<and>
     denotes h1 (TProgram 0) (transform_spec body) \<and> denotes h2 (TProgram 0) (transform_spec body)"
proof -
  assume body: "list_all old_expression body"
  from transformer_in_Program [OF body, of empty_store]
  obtain h1 where h1: "transformer_in empty_store (Program body) = Returns (transform_spec body, h1)"
    by auto
  from transformer_in_Program [OF body, of h1]
  obtain h2 later where h2: "transformer_in h1 (Program body) = Returns (transform_spec body, h2)"
    "arrays h2 = arrays h1 @ later"
    by auto
  from h1 have "denotes h1 (TProgram 0) (transform_spec body)"
    by (auto simp: transformer_in_def denotes_def empty_store_def split: sum.splits)
  with h1 h2 show ?thesis by (auto intro: denotes_later)
qed

theorem transformer_twice_witness:
  "\<exists>h1 h2. transformer_in empty_store (Program [CallExpression ''f'' [NumberLiteral ''1'']]) =
       Returns (Program [ExpressionStatement (NewCallExpression (Identifier ''f'') [NumberLiteral ''1''])], h1) \<and>
     transformer_in h1 (Program [CallExpression ''f'' [NumberLiteral ''1'']]) =
       Returns (Program [ExpressionStatement (NewCallExpression (Identifier ''f'') [NumberLiteral ''1''])], h2) \<and>
     denotes h1 (TProgram 0) (Program [ExpressionStatement (NewCallExpression (Identifier ''f'') [NumberLiteral ''1''])]) \<and>
     denotes h2 (TProgram 0) (Program [ExpressionStatement (NewCallExpression (Identifier ''f'') [NumberLiteral ''1''])])"
  using transformer_twice [of "[CallExpression ''f'' [NumberLiteral ''1'']]"]
  by (simp add: transform_spec_def)

text \<open>
  Claim C19. \<^verbatim>\<open>transformer\<close> writes to its input, and this is what it writes: when the
  call returns, the root has a \<^verbatim>\<open>_context\<close> that refers to the body of the new program,
  every call of the tree has one that refers to the \<^verbatim>\<open>arguments\<close> of the new call made
  for it, and the fields of all other nodes are as they were.
\<close>

theorem transformer_leaves_contexts:
  "list_all old_expression body \<Longrightarrow>
   \<exists>h'. transformer_in h (Program body) = Returns (transform_spec body, h') \<and>
     contexts h' = assign (([], length (arrays h)) #
       call_contexts_array (Suc (length (arrays h))) 0 body []) (contexts h)"
  using transformer_in_Program [of body h] by (auto dest: transformer_in_contexts)

theorem transformer_leaves_contexts_witness:
  "\<exists>h'. transformer_in empty_store (Program [CallExpression ''f'' [NumberLiteral ''1'']]) =
       Returns (Program [ExpressionStatement (NewCallExpression (Identifier ''f'') [NumberLiteral ''1''])], h') \<and>
     contexts h' = [[] \<mapsto> 0, [0] \<mapsto> 1]"
  using transformer_leaves_contexts [of "[CallExpression ''f'' [NumberLiteral ''1'']]" empty_store]
  by (simp add: transform_spec_def empty_store_def)

end
