(* ===== verification/CodeGenerator.thy ===== *)
theory CodeGenerator
  imports Syntax
begin

text \<open>
  The code generator of \<^verbatim>\<open>src/tiny-compiler.js\<close> (lines 242 to 271).
  \<open>codeGenerator\<close> is the function of that name, \<open>map_codeGenerator\<close> is
  \<^verbatim>\<open>array.map(codeGenerator)\<close>, which stops at the first element that throws. A
  \<^verbatim>\<open>CallExpression\<close> node of the parser has no \<^verbatim>\<open>callee\<close>, so line 252 calls
  \<^verbatim>\<open>codeGenerator(undefined)\<close>, whose \<^verbatim>\<open>node.type\<close> is \<open>TypeError_undefined\<close>. The
  \<^verbatim>\<open>default\<close> branch of the switch is not reached by a value of \<open>node\<close>, which has no
  other kinds.

  \<open>printable\<close> characterises the trees on which \<open>codeGenerator\<close> returns;
  \<open>expression_text\<close> and \<open>program_text\<close> give the text of a tree of the parser, which
  is what the code generator prints for its transformed tree.
\<close>

section \<open>The code generator\<close>

definition newline :: string where
  "newline = [CHR 0x0A]"

fun codeGenerator :: "node \<Rightarrow> string result"
  and map_codeGenerator :: "node list \<Rightarrow> string list result"
where
  "codeGenerator (Program body) = map_result (join newline) (map_codeGenerator body)"
| "codeGenerator (ExpressionStatement expression) =
     map_result (\<lambda>code. code @ '';'') (codeGenerator expression)"
| "codeGenerator (NewCallExpression callee arguments) =
     (case codeGenerator callee of
        Inl e \<Rightarrow> Inl e
      | Inr name \<Rightarrow>
         (case map_codeGenerator arguments of
            Inl e \<Rightarrow> Inl e
          | Inr codes \<Rightarrow> Inr (name @ ''('' @ join '', '' codes @ '')'')))"
| "codeGenerator (CallExpression name params) = Inl TypeError_undefined"
| "codeGenerator (Identifier name) = Inr name"
| "codeGenerator (NumberLiteral v) = Inr v"
| "codeGenerator (StringLiteral v) = Inr (quote # v @ [quote])"
| "map_codeGenerator [] = Inr []"
| "map_codeGenerator (node # array) =
     (case codeGenerator node of
        Inl e \<Rightarrow> Inl e
      | Inr code \<Rightarrow> map_result ((#) code) (map_codeGenerator array))"

section \<open>The text of a tree\<close>

fun printable :: "node \<Rightarrow> bool" where
  "printable (Program body) \<longleftrightarrow> list_all printable body"
| "printable (ExpressionStatement expression) \<longleftrightarrow> printable expression"
| "printable (NewCallExpression callee arguments) \<longleftrightarrow> printable callee \<and> list_all printable arguments"
| "printable (CallExpression name params) \<longleftrightarrow> False"
| "printable _ \<longleftrightarrow> True"

fun expression_text :: "node \<Rightarrow> string" where
  "expression_text (CallExpression name params) =
     name @ ''('' @ join '', '' (map expression_text params) @ '')''"
| "expression_text (NumberLiteral v) = v"
| "expression_text (StringLiteral v) = quote # v @ [quote]"
| "expression_text _ = []"

fun statement_text :: "node \<Rightarrow> string" where
  "statement_text (CallExpression name params) = expression_text (CallExpression name params) @ '';''"
| "statement_text node = expression_text node"

definition program_text :: "node list \<Rightarrow> string" where
  "program_text body = join newline (map statement_text body)"

section \<open>When the code generator returns\<close>

lemma map_codeGenerator_Inr_iff:
  "map_codeGenerator array = Inr codes \<longleftrightarrow>
     list_all2 (\<lambda>node code. codeGenerator node = Inr code) array codes"
  by (induction array arbitrary: codes)
    (auto simp: map_result_eq_Inr_iff list_all2_Cons1 split: sum.splits)

lemma map_codeGenerator_map:
  "(\<And>node. node \<in> set array \<Longrightarrow> codeGenerator (g node) = Inr (f node)) \<Longrightarrow>
   map_codeGenerator (map g array) = Inr (map f array)"
  by (induction array) simp_all

lemma codeGenerator_returns_printable:
  "codeGenerator node = Inr code \<Longrightarrow> printable node"
  "map_codeGenerator array = Inr codes \<Longrightarrow> list_all printable array"
  by (induction node and array arbitrary: code and codes rule: codeGenerator_map_codeGenerator.induct)
    (auto simp: map_result_eq_Inr_iff split: sum.splits)

lemma codeGenerator_printable:
  "printable node \<Longrightarrow> \<exists>code. codeGenerator node = Inr code"
  "list_all printable array \<Longrightarrow> \<exists>codes. map_codeGenerator array = Inr codes"
  by (induction node and array rule: codeGenerator_map_codeGenerator.induct)
    (auto simp: map_result_eq_Inr_iff)

lemma codeGenerator_throws:
  "codeGenerator node = Inl e \<Longrightarrow> e = TypeError_undefined \<and> \<not> printable node"
  "map_codeGenerator array = Inl e \<Longrightarrow> e = TypeError_undefined \<and> \<not> list_all printable array"
  by (induction node and array rule: codeGenerator_map_codeGenerator.induct)
    (auto simp: map_result_eq_Inl_iff split: sum.splits)

lemma new_expression_printable: "new_expression node \<Longrightarrow> printable node"
  by (induction node rule: new_expression.induct) (auto simp: list_all_iff)

lemma new_statement_printable: "new_statement node \<Longrightarrow> printable node"
  by (cases node rule: new_statement.cases) (auto dest: new_expression_printable simp: list_all_iff)

lemma new_program_printable: "new_program node \<Longrightarrow> printable node"
  by (auto simp: new_program_cases list_all_iff new_statement_printable)

section \<open>The code generator against its specification\<close>

text \<open>
  Claim C25. \<^verbatim>\<open>codeGenerator\<close> returns exactly on the trees without a
  \<^verbatim>\<open>CallExpression\<close> node of the parser's shape, which has no \<^verbatim>\<open>callee\<close>.
\<close>

theorem codeGenerator_returns_iff:
  "(\<exists>code. codeGenerator node = Inr code) = printable node"
  using codeGenerator_printable(1) [of node] codeGenerator_returns_printable(1) [of node] by auto

text \<open>
  The only exception of \<^verbatim>\<open>codeGenerator\<close> on a tree of these node kinds is
  the engine's \<^verbatim>\<open>TypeError\<close> for \<^verbatim>\<open>codeGenerator(undefined)\<close>, thrown when a call
  has no \<^verbatim>\<open>callee\<close>; the \<^verbatim>\<open>TypeError(node.type)\<close> of line 269 is never thrown.
\<close>

theorem codeGenerator_throws_only:
  "codeGenerator node = Inl e \<Longrightarrow> e = TypeError_undefined \<and> \<not> printable node"
  by (rule codeGenerator_throws(1))

theorem codeGenerator_throws_only_witness:
  "codeGenerator (Program [NumberLiteral ''1'', CallExpression ''add'' []]) = Inl TypeError_undefined"
  using codeGenerator_throws_only [of "Program [NumberLiteral ''1'', CallExpression ''add'' []]" TypeError_undefined]
  by simp

end
