(* ===== verification/Compiler.thy ===== *)
theory Compiler
  imports Tokenizer Parser Transformer CodeGenerator
begin

text \<open>
  The function \<^verbatim>\<open>compiler\<close> of \<^verbatim>\<open>src/tiny-compiler.js\<close> (lines 273 to 280): the
  four stages in sequence. An exception of one stage ends the compilation, and so
  does a tokenizer that does not return. \<open>module_exports\<close> is the object of lines 282
  to 289, a record of the six functions; the exported \<^verbatim>\<open>transformer\<close> is the function
  on stores, since its caller may hand it a tree that it has seen before. \<open>render\<close>
  writes a tree of the parser as a source text, each number and each name followed
  by a blank; it is the inverse that the theorems about the whole pipeline are
  stated with.
\<close>

section \<open>The pipeline\<close>

definition compiler :: "string \<Rightarrow> string outcome" where
  "compiler input =
     bind_outcome (tokenizer input) (\<lambda>tokens.
       case parser tokens of
         Inl e \<Rightarrow> Throws e
       | Inr ast \<Rightarrow>
           bind_outcome (transformer ast) (\<lambda>newAst. Some (codeGenerator newAst)))"

record 's exports =
  export_tokenizer :: "string \<Rightarrow> token list outcome"
  export_parser :: "token list \<Rightarrow> node result"
  export_traverser :: "node \<Rightarrow> 's visitor \<Rightarrow> 's \<Rightarrow> ('s, 's) exit"
  export_transformer :: "store \<Rightarrow> node \<Rightarrow> (store, node \<times> store) exit option"
  export_codeGenerator :: "node \<Rightarrow> string result"
  export_compiler :: "string \<Rightarrow> string outcome"

definition module_exports :: "'s exports" where
  "module_exports =
     \<lparr>export_tokenizer = tokenizer,
      export_parser = parser,
      export_traverser = traverser,
      export_transformer = transformer_in,
      export_codeGenerator = codeGenerator,
      export_compiler = compiler\<rparr>"

definition render :: "node list \<Rightarrow> string" where
  "render body = unlex (unparse_all body)"

definition source_ok :: "node list \<Rightarrow> bool" where
  "source_ok body \<longleftrightarrow> list_all old_expression body \<and> list_all token_ok (unparse_all body)"

section \<open>The text of a transformed tree\<close>

lemma module_exports_simps [simp]:
  "export_tokenizer module_exports = tokenizer"
  "export_parser module_exports = parser"
  "export_traverser module_exports = traverser"
  "export_transformer module_exports = transformer_in"
  "export_codeGenerator module_exports = codeGenerator"
  "export_compiler module_exports = compiler"
  by (simp_all add: module_exports_def)

lemma codeGenerator_transform_expression:
  "old_expression node \<Longrightarrow> codeGenerator (transform_expression node) = Inr (expression_text node)"
  by (induction node rule: old_expression.induct)
    (simp_all add: map_codeGenerator_map list_all_iff)

lemma codeGenerator_transform_statement:
  "old_expression node \<Longrightarrow> codeGenerator (transform_statement node) = Inr (statement_text node)"
  using codeGenerator_transform_expression [of node] by (cases node) simp_all

lemma codeGenerator_transform_spec:
  "list_all old_expression body \<Longrightarrow> codeGenerator (transform_spec body) = Inr (program_text body)"
  by (simp add: transform_spec_def program_text_def map_codeGenerator_map
      codeGenerator_transform_statement list_all_iff)

lemma compiler_stages:
  "tokenizer input = Returns tokens \<Longrightarrow> parser tokens = Inr (Program body) \<Longrightarrow>
   list_all old_expression body \<Longrightarrow> compiler input = Returns (program_text body)"
  by (simp add: compiler_def transformer_Program codeGenerator_transform_spec)

lemma compiler_render: "source_ok body \<Longrightarrow> compiler (render body) = Returns (program_text body)"
  by (rule compiler_stages [of _ "unparse_all body"])
    (simp_all add: source_ok_def render_def tokenizer_eq_lex lex_unlex parser_unparse)

lemma parser_old_program: "parser tokens = Inr ast \<Longrightarrow> \<exists>body. ast = Program body \<and> list_all old_expression body"
  using parser_loop_sound [of tokens 0 "[]" ast] by (auto simp: parser_def)

lemma compiler_cases:
  "compiler input =
     (case tokenizer input of
        None \<Rightarrow> Diverges
      | Some (Inl e) \<Rightarrow> Throws e
      | Some (Inr tokens) \<Rightarrow>
         (case parser tokens of
            Inl e \<Rightarrow> Throws e
          | Inr ast \<Rightarrow> Returns (program_text (children ast))))"
proof (cases "tokenizer input")
  case (Some r)
  show ?thesis
  proof (cases r)
    case (Inr tokens)
    show ?thesis
    proof (cases "parser tokens")
      case (Inr ast)
      with parser_old_program [of tokens ast] \<open>r = Inr tokens\<close> Some show ?thesis
        by (auto simp: compiler_stages)
    qed (simp add: compiler_def Some \<open>r = Inr tokens\<close>)
  qed (simp add: compiler_def Some)
qed (simp add: compiler_def)

lemmas compiler_eval = compiler_cases tokenizer_eval parser_eval program_text_def newline_def

section \<open>The pipeline against its specification\<close>

text \<open>
  Claim C2. The compiler is correct on rendered programs: for every body of
  literals and calls whose names are non-empty runs of letters, whose numbers are
  non-empty runs of digits and whose strings have no double quote, \<^verbatim>\<open>compiler\<close>
  applied to its source text, with a blank after each name and number, returns
  the text of the program in call syntax, one statement per line.
\<close>

theorem compiler_correct:
  "source_ok body \<Longrightarrow> compiler (render body) = Returns (program_text body)"
  by (rule compiler_render)

theorem compiler_correct_witness:
  "compiler ''(add 2 (subtract 4 2 ))'' = Returns ''add(2, subtract(4, 2));''"
  using compiler_correct [of "[CallExpression ''add'' [NumberLiteral ''2'',
      CallExpression ''subtract'' [NumberLiteral ''4'', NumberLiteral ''2'']]]"]
  by (simp add: source_ok_def render_def unlex_def lexeme_def token_ok_def char_class_defs
      program_text_def)

text \<open>
  Claim C9. The last two stages never fail inside the pipeline: \<^verbatim>\<open>compiler\<close> runs
  forever exactly when \<^verbatim>\<open>tokenizer\<close> does, throws exactly what \<^verbatim>\<open>tokenizer\<close> or
  \<^verbatim>\<open>parser\<close> throws, and otherwise returns the text of the body that \<^verbatim>\<open>parser\<close>
  returned. The tree that \<^verbatim>\<open>parser\<close> returns is always one that \<^verbatim>\<open>transformer\<close>
  accepts, and its result one that \<^verbatim>\<open>codeGenerator\<close> prints.
\<close>

theorem compiler_is_front_end_then_text:
  "compiler input =
     (case tokenizer input of
        None \<Rightarrow> Diverges
      | Some (Inl e) \<Rightarrow> Throws e
      | Some (Inr tokens) \<Rightarrow>
         (case parser tokens of
            Inl e \<Rightarrow> Throws e
          | Inr ast \<Rightarrow> Returns (program_text (children ast))))"
  by (rule compiler_cases)

text \<open>
  Claim C36. Every exception of \<^verbatim>\<open>compiler\<close> is the \<^verbatim>\<open>TypeError\<close> of the tokenizer
  for a character of the input that it does not know, or one of the three errors of
  the parser. This is for strings of any length and a stack of any depth: the
  \<^verbatim>\<open>RangeError\<close> with which an engine ends a loop of the tokenizer that never leaves is
  \<open>Diverges\<close> here, and the recursion over the tree has no bound.
\<close>

theorem compiler_throws:
  "compiler input = Throws e \<Longrightarrow>
   (\<exists>c \<in> set input. \<not> known_char c \<and> e = unknown_character (Some c)) \<or> parser_error e"
  using lex_throws [of input e]
  by (auto simp: compiler_cases tokenizer_eq_lex parser_def
      split: option.splits sum.splits dest: parser_loop_errors)

theorem compiler_throws_witness:
  "compiler ''(a @)'' = Throws (TypeError ''I do not know what this character is: @'') \<and>
   ((\<exists>c \<in> set ''(a @)''. \<not> known_char c \<and>
      TypeError ''I do not know what this character is: @'' = unknown_character (Some c)) \<or>
    parser_error (TypeError ''I do not know what this character is: @''))"
proof -
  have h: "compiler ''(a @)'' = Throws (TypeError ''I do not know what this character is: @'')"
    by (simp add: compiler_eval unknown_character_def)
  show ?thesis using h compiler_throws [OF h] by simp
qed

text \<open>
  Scenarios 2, 3 and 4 of the specification do not hold of the code. The
  parenthesis after a name is dropped by the tokenizer, so \<^verbatim>\<open>(a)\<close> and
  \<^verbatim>\<open>(a (b) (c))\<close> reach the parser without it and end in the engine's \<^verbatim>\<open>TypeError\<close>
  instead of \<^verbatim>\<open>a();\<close> and \<^verbatim>\<open>a(b(), c());\<close>; and \<^verbatim>\<open>("hello")\<close>, which should be
  refused, compiles to \<^verbatim>\<open>hello();\<close>.
\<close>

theorem compiler_scenarios:
  "compiler ''(a)'' = Throws TypeError_undefined \<and>
   compiler ''(a (b) (c))'' = Throws TypeError_undefined \<and>
   compiler (''('' @ [quote] @ ''hello'' @ [quote] @ '')'') = Returns ''hello();''"
  by (simp add: compiler_eval quote_def)

end
