(* ===== verification/Output.thy ===== *)
theory Output
  imports Compiler
begin

text \<open>
  The text that \<^verbatim>\<open>compiler\<close> returns determines the tree that was compiled, as long
  as every call is named by letters. \<open>source_expression\<close> are the expressions of the
  input grammar: numbers are runs of digits, strings have no double quote, names are
  runs of letters; the trees that \<^verbatim>\<open>parser\<close> returns on the tokens of \<^verbatim>\<open>tokenizer\<close> are
  of this form when their calls are \<open>well_named\<close>, which the parser does not check.

  \<open>expression_text_unique\<close> reads a text from the left: the text of an expression,
  followed by anything that does not go on with a digit (\<open>no_digit\<close>), determines the
  expression and what follows it. The proof is by induction on the expression, with
  \<open>join_unique\<close> of the prelude for the arguments of a call and for the statements of
  a program. \<open>compiler_same_text\<close> shows what happens without the condition on the
  names.
\<close>

section \<open>The trees of the input grammar\<close>

fun source_expression :: "node \<Rightarrow> bool" where
  "source_expression (NumberLiteral v) \<longleftrightarrow> v \<noteq> [] \<and> list_all NUMBERS v"
| "source_expression (StringLiteral v) \<longleftrightarrow> quote \<notin> set v"
| "source_expression (CallExpression name params) \<longleftrightarrow>
     name \<noteq> [] \<and> list_all LETTERS name \<and> list_all source_expression params"
| "source_expression _ \<longleftrightarrow> False"

fun_cases source_expression_cases [consumes 1, case_names Number String Call]:
  "source_expression e"

definition no_digit :: "string \<Rightarrow> bool" where
  "no_digit rest \<longleftrightarrow> rest = [] \<or> \<not> NUMBERS (hd rest)"

fun well_named :: "node \<Rightarrow> bool" where
  "well_named (CallExpression name params) \<longleftrightarrow>
     name \<noteq> [] \<and> list_all LETTERS name \<and> list_all well_named params"
| "well_named (Program body) \<longleftrightarrow> list_all well_named body"
| "well_named _ \<longleftrightarrow> True"

section \<open>The first character of a text\<close>

lemma no_digit_simps [simp]:
  "no_digit []" "no_digit (c # cs) \<longleftrightarrow> \<not> NUMBERS c"
  by (simp_all add: no_digit_def)

lemma expression_text_hd:
  assumes "source_expression e"
  shows "\<exists>c cs. expression_text e = c # cs \<and> (NUMBERS c \<or> c = quote \<or> LETTERS c) \<and>
    (NUMBERS c \<longleftrightarrow> (\<exists>v. e = NumberLiteral v)) \<and> (c = quote \<longleftrightarrow> (\<exists>v. e = StringLiteral v))"
  using assms
proof (cases rule: source_expression_cases)
  case (Number v)
  then show ?thesis using class_disjoint(3) [of "hd v"] by (cases v) auto
next
  case (String v)
  then show ?thesis using class_disjoint(5) [of quote] by auto
next
  case (Call name params)
  then show ?thesis using class_disjoint(4) [of "hd name"] by (cases name) auto
qed

lemma expression_text_same_kind:
  assumes "source_expression e" and "source_expression e'"
    and "expression_text e @ r = expression_text e' @ r'"
  shows "(\<exists>v. e = NumberLiteral v) \<longleftrightarrow> (\<exists>v. e' = NumberLiteral v)"
    and "(\<exists>v. e = StringLiteral v) \<longleftrightarrow> (\<exists>v. e' = StringLiteral v)"
  using expression_text_hd [OF assms(1)] expression_text_hd [OF assms(2)] assms(3) by auto

lemma arguments_text_unique:
  assumes "join '', '' (map expression_text params) @ CHR '')'' # r =
      join '', '' (map expression_text params') @ CHR '')'' # r'"
    and "list_all source_expression params" and "list_all source_expression params'"
    and elems: "\<And>x y t t'. x \<in> set params \<Longrightarrow> source_expression x \<Longrightarrow> source_expression y \<Longrightarrow>
      expression_text x @ t = expression_text y @ t' \<Longrightarrow> no_digit t \<Longrightarrow> no_digit t' \<Longrightarrow> x = y \<and> t = t'"
  shows "params = params' \<and> r = r'"
proof -
  have "params = params' \<and> CHR '')'' # r = CHR '')'' # r'"
  proof (rule join_unique [of "'', ''" expression_text params _ params' _ no_digit, OF assms(1)])
    fix x y t t' assume "x \<in> set params" "y \<in> set params'" "expression_text x @ t = expression_text y @ t'"
      "no_digit t" "no_digit t'"
    with elems [of x y t t'] assms(2,3) show "x = y \<and> t = t'" by (simp add: list_all_iff)
  next
    fix y t assume "y \<in> set params'"
    with assms(3) expression_text_hd [of y] show "CHR '')'' # r \<noteq> expression_text y @ t"
      by (auto simp: list_all_iff char_class_defs)
  next
    fix x t assume "x \<in> set params"
    with assms(2) expression_text_hd [of x] show "CHR '')'' # r' \<noteq> expression_text x @ t"
      by (auto simp: list_all_iff char_class_defs)
  qed (simp_all add: char_class_defs)
  then show ?thesis by simp
qed

lemma expression_text_unique:
  "source_expression e \<Longrightarrow> source_expression e' \<Longrightarrow> expression_text e @ r = expression_text e' @ r' \<Longrightarrow>
   no_digit r \<Longrightarrow> no_digit r' \<Longrightarrow> e = e' \<and> r = r'"
proof (induction e arbitrary: e' r r')
  case (NumberLiteral v)
  from expression_text_same_kind(1) [OF NumberLiteral(1-3)] obtain v' where e': "e' = NumberLiteral v'"
    by auto
  with NumberLiteral run_unique [of v r v' r' NUMBERS] show ?case
    by (simp add: no_digit_def)
next
  case (StringLiteral v)
  from expression_text_same_kind(2) [OF StringLiteral(1-3)] obtain v' where e': "e' = StringLiteral v'"
    by auto
  with StringLiteral run_unique [of v "quote # r" v' "quote # r'" "\<lambda>c. c \<noteq> quote"] show ?case
    by (simp add: not_quote_run)
next
  case (CallExpression name params)
  from CallExpression(3) expression_text_same_kind [OF CallExpression(2-4)]
  obtain name' params' where e': "e' = CallExpression name' params'"
    by (cases rule: source_expression_cases) auto
  let ?args = "\<lambda>ps. join '', '' (map expression_text ps)"
  from CallExpression(2-4) e'
    run_unique [of name "CHR ''('' # ?args params @ CHR '')'' # r" name' "CHR ''('' # ?args params' @ CHR '')'' # r'" LETTERS]
  have name: "name = name'" and args: "?args params @ CHR '')'' # r = ?args params' @ CHR '')'' # r'"
    by (simp_all add: char_class_defs)
  from CallExpression(2,3) e' have "list_all source_expression params" "list_all source_expression params'"
    by simp_all
  then have "params = params' \<and> r = r'"
    by (rule arguments_text_unique [OF args]) (rule CallExpression.IH)
  with name show ?case by (simp add: e')
qed simp_all

section \<open>Statements and programs\<close>

lemma statement_text_expression:
  assumes "source_expression s"
  shows "\<exists>semi. statement_text s = expression_text s @ semi \<and> (no_digit r \<longrightarrow> no_digit (semi @ r)) \<and>
    semi = (if \<exists>v. s = NumberLiteral v \<or> s = StringLiteral v then [] else '';'')"
  using assms by (cases rule: source_expression_cases) (auto simp: char_class_defs)

lemma statement_text_unique:
  assumes "source_expression s" and "source_expression s'"
    and "statement_text s @ r = statement_text s' @ r'" and "no_digit r" and "no_digit r'"
  shows "s = s' \<and> r = r'"
proof -
  from statement_text_expression [OF assms(1), of r] statement_text_expression [OF assms(2), of r']
  obtain semi semi' where s: "statement_text s = expression_text s @ semi" "no_digit (semi @ r)"
      "semi = (if \<exists>v. s = NumberLiteral v \<or> s = StringLiteral v then [] else '';'')"
    and s': "statement_text s' = expression_text s' @ semi'" "no_digit (semi' @ r')"
      "semi' = (if \<exists>v. s' = NumberLiteral v \<or> s' = StringLiteral v then [] else '';'')"
    using assms(4,5) by auto
  from assms(3) have "expression_text s @ semi @ r = expression_text s' @ semi' @ r'"
    by (simp add: s(1) s'(1))
  from expression_text_unique [OF assms(1,2) this s(2) s'(2)] s(3) s'(3) show ?thesis by auto
qed

lemma program_text_unique:
  assumes "list_all source_expression body" and "list_all source_expression body'"
    and "program_text body = program_text body'"
  shows "body = body'"
proof -
  from assms(3) have eq: "join newline (map statement_text body) @ [] = join newline (map statement_text body') @ []"
    by (simp add: program_text_def)
  have nonempty: "statement_text s \<noteq> []" if "source_expression s" for s
    using statement_text_expression [OF that, of "[]"] expression_text_hd [OF that] by auto
  have "body = body' \<and> ([] :: string) = []"
  proof (rule join_unique [of newline statement_text body _ body' _ no_digit, OF eq])
    fix x y t t' assume "x \<in> set body" "y \<in> set body'" "statement_text x @ t = statement_text y @ t'"
      "no_digit t" "no_digit t'"
    with assms(1,2) statement_text_unique [of x y t t'] show "x = y \<and> t = t'"
      by (simp add: list_all_iff)
  next
    fix y t assume "y \<in> set body'"
    with assms(2) nonempty [of y] show "[] \<noteq> statement_text y @ t" by (simp add: list_all_iff)
  next
    fix x t assume "x \<in> set body"
    with assms(1) nonempty [of x] show "[] \<noteq> statement_text x @ t" by (simp add: list_all_iff)
  qed (simp_all add: newline_def char_class_defs)
  then show ?thesis by simp
qed

lemma reads_as_token_ok:
  "list_all2 reads_as printed tokens \<Longrightarrow> list_all token_ok tokens \<Longrightarrow>
   \<forall>p \<in> set printed. tok_type p \<noteq> Name \<longrightarrow> token_ok p"
proof (induction rule: list_all2_induct)
  case (Cons p ps t ts)
  have "token_ok p" if "tok_type p \<noteq> Name"
    using that Cons(1,4) by (auto simp: reads_as_def token_ok_def split: token_type.splits)
  with Cons show ?case by simp
qed simp

lemma source_expression_unparse:
  "old_expression e \<Longrightarrow> well_named e \<Longrightarrow> \<forall>p \<in> set (unparse e). tok_type p \<noteq> Name \<longrightarrow> token_ok p \<Longrightarrow>
   source_expression e"
  by (induction e) (auto simp: token_ok_def list_all_iff)

lemma source_ok_iff: "source_ok body \<longleftrightarrow> list_all source_expression body"
proof -
  have "old_expression e \<and> list_all token_ok (unparse e) \<longleftrightarrow> source_expression e" for e
    by (induction e) (auto simp: token_ok_def list_all_iff)
  then show ?thesis
    by (auto simp: source_ok_def unparse_all_def list_all_iff)
qed

lemma parsed_source_expression:
  assumes "tokenizer source = Returns ts" and "parser ts = Inr ast" and "well_named ast"
  shows "\<exists>body. ast = Program body \<and> list_all source_expression body \<and>
    compiler source = Returns (program_text body)"
proof -
  from parser_loop_sound [of ts 0 "[]" ast] assms(2) obtain body where ast: "ast = Program body"
    and old: "list_all old_expression body" and reads: "list_all2 reads_as (unparse_all body) ts"
    by (auto simp: parser_def)
  from assms(1) have "list_all token_ok ts" by (simp add: tokenizer_eq_lex lex_tokens_ok)
  from reads_as_token_ok [OF reads this] old assms(3) have "list_all source_expression body"
    by (auto simp: ast list_all_iff unparse_all_def intro!: source_expression_unparse)
  with compiler_stages [OF assms(1) assms(2) [unfolded ast] old] ast show ?thesis by simp
qed

section \<open>The compiler is injective\<close>

text \<open>
  Claim C18. The compiler loses nothing but the layout: two sources whose calls are
  named by letters compile to the same text exactly when \<^verbatim>\<open>parser\<close> returns the same
  tree for them. The text of a number ends where the digits end, a string at its
  closing quote, a name at the parenthesis, and the arguments and statements are
  told apart by the comma, the closing parenthesis, the semicolon and the newline.
\<close>

theorem compiler_injective:
  assumes "tokenizer source = Returns ts" and "parser ts = Inr ast" and "well_named ast"
    and "tokenizer source' = Returns ts'" and "parser ts' = Inr ast'" and "well_named ast'"
  shows "compiler source = compiler source' \<longleftrightarrow> ast = ast'"
  using parsed_source_expression [OF assms(1-3)] parsed_source_expression [OF assms(4-6)]
  by (auto dest: program_text_unique)

theorem compiler_injective_witness:
  "compiler ''(f 1)'' = compiler ''(f  1)'' \<longleftrightarrow>
   Program [CallExpression ''f'' [NumberLiteral ''1'']] = Program [CallExpression ''f'' [NumberLiteral ''1'']]"
proof -
  let ?ts = "[Token Paren ''('', Token Name ''f'', Token Number ''1'', Token Paren '')'']"
  have "tokenizer ''(f 1)'' = Returns ?ts" and "tokenizer ''(f  1)'' = Returns ?ts"
    by (simp_all add: tokenizer_eval)
  moreover have "parser ?ts = Inr (Program [CallExpression ''f'' [NumberLiteral ''1'']])"
    by (simp add: parser_eval)
  ultimately show ?thesis
    using compiler_injective [of "''(f 1)''" ?ts _ "''(f  1)''" ?ts] by (simp add: char_class_defs)
qed

text \<open>
  The condition on the names is needed: \<^verbatim>\<open>parser\<close> takes a string token as the name of
  a call and \<^verbatim>\<open>codeGenerator\<close> prints it as it is, so a call named by the text of a
  program compiles to the text of that program.
\<close>

lemma compiler_same_text:
  "compiler (''('' @ [quote] @ ''f(1);'' @ newline @ ''g'' @ [quote] @ '' 2)'') =
     Returns (''f(1);'' @ newline @ ''g(2);'')"
  "compiler ''(f 1)(g 2)'' = Returns (''f(1);'' @ newline @ ''g(2);'')"
  by (simp_all add: compiler_eval quote_def)

end
