(* ===== verification/Fixture.thy ===== *)
theory Fixture
  imports Compiler Rerun
begin

text \<open>
  The test of \<^verbatim>\<open>src/test.js\<close>: the five constants of lines 10 to 76 and the script of
  lines 77 to 88, which applies each stage to the constant of the stage before it.

  \<^item> \<open>test_script_on\<close> is the script as a function of the five constants, statement
    by statement, from the \<^verbatim>\<open>require\<close> of line 7, which takes five functions out of
    \<open>module_exports\<close>; \<open>test_script\<close> is the script on the constants of the file. Its
    state is the console, a list of the argument lists of \<^verbatim>\<open>console.log\<close>, and the
    store of the transformer, for the \<^verbatim>\<open>_context\<close> fields on the nodes of the constant
    \<^verbatim>\<open>ast\<close>: the script calls \<^verbatim>\<open>transformer(ast)\<close> at line 81 and again at line 82. An
    exception of a stage or of an assertion ends the script.
  \<^item> \<open>deepStrictEqual\<close> is \<^verbatim>\<open>assert.deepStrictEqual\<close> on values without
    \<^verbatim>\<open>_context\<close> fields; \<open>deepStrictEqual_tree\<close> compares a tree of the parser with a
    tree that may carry them, and a node that has the field differs from one that has
    not (\<open>annotated\<close>).
  \<^item> \<^verbatim>\<open>compiler(input)\<close> builds its own tree, on whose nodes no earlier call has left
    a field, so the script calls \<open>compiler\<close> with the empty store.
\<close>

section \<open>The script\<close>

datatype js_value = Str string | Toks "token list" | Tree node

type_synonym console = "js_value list list"

definition lets_look :: "string \<Rightarrow> js_value" where
  "lets_look stage = Str (''let'' @ [CHR 0x27] @ ''s look at the '' @ stage)"

definition deepStrictEqual :: "'a \<Rightarrow> 'a \<Rightarrow> string \<Rightarrow> unit result" where
  "deepStrictEqual actual expected message =
     (if actual = expected then Inr () else Inl (AssertionError message))"

definition annotated :: "store \<Rightarrow> node \<Rightarrow> bool" where
  "annotated h tree \<longleftrightarrow> list_ex (\<lambda>(path, node). contexts h path \<noteq> None) (subnodes [] tree)"

definition deepStrictEqual_tree :: "node \<Rightarrow> store \<Rightarrow> node \<Rightarrow> string \<Rightarrow> unit result" where
  "deepStrictEqual_tree actual h expected message =
     (if actual = expected \<and> \<not> annotated h expected then Inr () else Inl (AssertionError message))"

definition test_script_on :: "string \<Rightarrow> token list \<Rightarrow> node \<Rightarrow> node \<Rightarrow> string \<Rightarrow> console outcome" where
  "test_script_on input tokens ast newAst output_text =
     (let required = (module_exports :: store exports);
          tokenizer = export_tokenizer required;
          parser = export_parser required;
          transformer = export_transformer required;
          codeGenerator = export_codeGenerator required;
          compiler = export_compiler required;
          h = empty_store; console = [] in
      bind_outcome (tokenizer input) (\<lambda>shown.
      let console = console @ [[lets_look ''tokenizer'', Toks shown]] in
      bind_outcome (tokenizer input) (\<lambda>actual.
      bind_outcome (Some (deepStrictEqual actual tokens
        ''Tokenizer should turn `input` string into `tokens` array'')) (\<lambda>_.
      bind_outcome (Some (parser tokens)) (\<lambda>shown.
      let console = console @ [[lets_look ''parser'', Tree shown]] in
      bind_outcome (Some (parser tokens)) (\<lambda>actual.
      bind_outcome (Some (deepStrictEqual_tree actual h ast
        ''Parser should turn `tokens` array into `ast`'')) (\<lambda>_.
      bind_outcome (map_option uncaught (transformer h ast)) (\<lambda>(shown, h).
      let console = console @ [[lets_look ''transformer'', Tree shown]] in
      bind_outcome (map_option uncaught (transformer h ast)) (\<lambda>(actual, h).
      bind_outcome (Some (deepStrictEqual actual newAst
        ''Transformer should turn `ast` into a `newAst`'')) (\<lambda>_.
      bind_outcome (Some (codeGenerator newAst)) (\<lambda>shown.
      let console = console @ [[lets_look ''codeGenerator'', Str shown]] in
      bind_outcome (Some (codeGenerator newAst)) (\<lambda>actual.
      bind_outcome (Some (deepStrictEqual actual output_text
        ''Code Generator should turn `newAst` into `output` string'')) (\<lambda>_.
      bind_outcome (compiler input) (\<lambda>shown.
      let console = console @ [[lets_look ''compiler'', Str shown]] in
      bind_outcome (compiler input) (\<lambda>actual.
      bind_outcome (Some (deepStrictEqual actual output_text
        ''Compiler should turn `input` into `output`'')) (\<lambda>_.
      Returns (console @ [[Str ''All Passed!'']])))))))))))))))))"

section \<open>The constants\<close>

definition input :: string where
  "input = ''(add 2 (subtract 4 2))''"

definition output_text :: string where
  "output_text = ''add(2, subtract(4, 2));''"

definition tokens :: "token list" where
  "tokens =
     [Token Paren ''('', Token Name ''add'', Token Number ''2'', Token Paren ''('',
      Token Name ''subtract'', Token Number ''4'', Token Number ''2'', Token Paren '')'',
      Token Paren '')'']"

definition ast :: node where
  "ast = Program [CallExpression ''add'' [NumberLiteral ''2'',
     CallExpression ''subtract'' [NumberLiteral ''4'', NumberLiteral ''2'']]]"

definition newAst :: node where
  "newAst = Program [ExpressionStatement (NewCallExpression (Identifier ''add'') [NumberLiteral ''2'',
     NewCallExpression (Identifier ''subtract'') [NumberLiteral ''4'', NumberLiteral ''2'']])]"

definition test_script :: "console outcome" where
  "test_script = test_script_on input tokens ast newAst output_text"

section \<open>The stages on the constants\<close>

lemmas fixture_defs = input_def output_text_def tokens_def ast_def newAst_def

lemma tokenizer_input: "tokenizer input = Returns tokens"
  by (simp add: fixture_defs tokenizer_eval)

lemma parser_tokens: "parser tokens = Inr ast"
  using parser_unparse [of "children ast"] by (simp add: fixture_defs)

lemma transformer_ast: "transformer ast = Returns newAst"
  using transformer_Program [of "children ast"] by (simp add: fixture_defs transform_spec_def)

lemma codeGenerator_newAst: "codeGenerator newAst = Inr output_text"
  by (simp add: fixture_defs newline_def)

lemma compiler_input: "compiler input = Returns output_text"
  using tokenizer_input parser_tokens transformer_ast codeGenerator_newAst
  by (simp add: compiler_def)

lemma deepStrictEqual_same [simp]: "deepStrictEqual x x message = Inr ()"
  by (simp add: deepStrictEqual_def)

lemma deepStrictEqual_tree_empty [simp]: "deepStrictEqual_tree tree empty_store tree message = Inr ()"
  by (simp add: deepStrictEqual_tree_def annotated_def empty_store_def list_ex_iff)

lemma transformer_in_ast:
  "\<exists>h'. transformer_in h ast = Returns (newAst, h')"
  using transformer_in_Program [of "children ast" h] by (auto simp: fixture_defs transform_spec_def)

text \<open>
  The five assertions of the test hold: \<^verbatim>\<open>tokenizer(input)\<close> is
  \<^verbatim>\<open>tokens\<close>, \<^verbatim>\<open>parser(tokens)\<close> is \<^verbatim>\<open>ast\<close>, \<^verbatim>\<open>transformer(ast)\<close> is \<^verbatim>\<open>newAst\<close>,
  \<^verbatim>\<open>codeGenerator(newAst)\<close> is \<^verbatim>\<open>output\<close> and \<^verbatim>\<open>compiler(input)\<close> is \<^verbatim>\<open>output\<close>.
  In the input every name is followed by a blank, so the character that the tokenizer
  drops after a name is never a parenthesis.
\<close>

theorem test_assertions:
  "tokenizer input = Returns tokens \<and> parser tokens = Inr ast \<and> transformer ast = Returns newAst \<and>
   codeGenerator newAst = Inr output_text \<and> compiler input = Returns output_text"
  using tokenizer_input parser_tokens transformer_ast codeGenerator_newAst
  by (simp add: compiler_def)

lemma test_script_on_transformed:
  assumes "tokenizer source = Returns ts" and "parser ts = Inr (Program body)"
  shows "test_script_on source ts (Program body) expected_tree expected_text =
    (if expected_tree \<noteq> transform_spec body
     then Throws (AssertionError ''Transformer should turn `ast` into a `newAst`'')
     else if expected_text \<noteq> program_text body
     then Throws (AssertionError ''Code Generator should turn `newAst` into `output` string'')
     else Returns [[lets_look ''tokenizer'', Toks ts], [lets_look ''parser'', Tree (Program body)],
       [lets_look ''transformer'', Tree (transform_spec body)],
       [lets_look ''codeGenerator'', Str (program_text body)],
       [lets_look ''compiler'', Str (program_text body)], [Str ''All Passed!'']])"
proof -
  from parser_old_program [OF assms(2)] have old: "list_all old_expression body" by simp
  obtain h1 where h1: "transformer_in empty_store (Program body) = Returns (transform_spec body, h1)"
    using transformer_in_Program [OF old] by blast
  obtain h2 where h2: "transformer_in h1 (Program body) = Returns (transform_spec body, h2)"
    using transformer_in_Program [OF old] by blast
  show ?thesis
    by (simp add: test_script_on_def assms h1 h2 compiler_stages [OF assms old]
        codeGenerator_transform_spec [OF old] deepStrictEqual_def)
qed

text \<open>
  Claim C21. The script passes exactly on the fixtures that the specifications give.
  When \<^verbatim>\<open>tokenizer\<close> returns tokens for a source and \<^verbatim>\<open>parser\<close> a tree for the tokens,
  the script on that source, those tokens, that tree, an expected tree and an expected
  text runs to its last line, with no exception and no failed assertion, exactly when
  the expected tree is that of \<open>transform_spec\<close> and the expected text that of
  \<open>program_text\<close>; the console then shows the result of each stage and
  \<^verbatim>\<open>All Passed!\<close>. The second call of \<^verbatim>\<open>transformer(ast)\<close>, which runs on the tree that
  the first call annotated, returns the same tree as the first. The script of the file
  is the instance of the witness.
\<close>

theorem test_passes:
  assumes "tokenizer source = Returns ts" and "parser ts = Inr (Program body)"
  shows "test_script_on source ts (Program body) expected_tree expected_text = Returns console \<longleftrightarrow>
    expected_tree = transform_spec body \<and> expected_text = program_text body \<and>
    console =
     [[lets_look ''tokenizer'', Toks ts], [lets_look ''parser'', Tree (Program body)],
      [lets_look ''transformer'', Tree (transform_spec body)],
      [lets_look ''codeGenerator'', Str (program_text body)],
      [lets_look ''compiler'', Str (program_text body)], [Str ''All Passed!'']]"
  by (auto simp: test_script_on_transformed [OF assms])

theorem test_passes_witness:
  "tokenizer input = Returns tokens \<and> parser tokens = Inr ast \<and>
   test_script = Returns
     [[lets_look ''tokenizer'', Toks tokens], [lets_look ''parser'', Tree ast],
      [lets_look ''transformer'', Tree newAst], [lets_look ''codeGenerator'', Str output_text],
      [lets_look ''compiler'', Str output_text], [Str ''All Passed!'']]"
proof -
  have "newAst = transform_spec (children ast)" "output_text = program_text (children ast)"
    "ast = Program (children ast)"
    by (simp_all add: fixture_defs transform_spec_def program_text_def)
  with test_passes [of input tokens "children ast" newAst output_text] tokenizer_input parser_tokens
  show ?thesis by (simp add: test_script_def)
qed

text \<open>
  The order of the statements matters for the assertion on the parser: after the
  first call of \<^verbatim>\<open>transformer(ast)\<close> the constant \<^verbatim>\<open>ast\<close> carries \<^verbatim>\<open>_context\<close> fields, and
  the tree of the parser is no longer deeply equal to it.
\<close>

lemma ast_annotated:
  "transformer_in empty_store ast = Returns (tree, h) \<Longrightarrow>
   deepStrictEqual_tree ast h ast message = Inl (AssertionError message)"
  using transformer_in_Program [of "children ast" empty_store]
  by (auto simp: fixture_defs deepStrictEqual_tree_def annotated_def subnodes.simps)

end
