(* ===== verification/Spec2Isabelle.thy ===== *)
theory Spec2Isabelle
  imports Tokenizer Tokenizer_Steps Parser Grammar Traverser Transformer Store_Invariant Rerun CodeGenerator Compiler
    Output Fixture
begin

text \<open>
  A verification development for the tiny compiler of \<^verbatim>\<open>src/tiny-compiler.js\<close>, which
  turns Lisp-like calls such as \<^verbatim>\<open>(add 2 (subtract 4 2))\<close> into C-like calls such as
  \<^verbatim>\<open>add(2, subtract(4, 2));\<close>. The program is a pipeline of four stages, and
  \<^verbatim>\<open>src/test.js\<close> checks each of them on one fixture.

  \<^bold>\<open>The program and its model.\<close>

  \<^item> \<open>JS_Prelude\<close>: the JavaScript primitives the program relies on. Exceptions are
    values (\<open>js_error + 'a\<close>: the two \<^verbatim>\<open>TypeError\<close>s of the program and the
    \<^verbatim>\<open>AssertionError\<close> of the test), a computation that may not return is an \<open>outcome\<close>
    (\<open>None\<close> is "runs forever"), and a call that changes a state throws in a state
    (\<open>('s, 'a) exit\<close>). \<open>js_index\<close> is \<^verbatim>\<open>xs[i]\<close> with \<^verbatim>\<open>undefined\<close> past the
    end, \<open>regex_test\<close> the test of a one-character class against the string form of its
    argument, \<open>join\<close> is \<^verbatim>\<open>Array.prototype.join\<close>. Shared lemmas on indexing, slices,
    runs of characters, results and outcomes.
  \<^item> \<open>Syntax\<close>: tokens (\<open>token\<close>, \<open>token_type\<close>) and one datatype \<open>node\<close> for the
    objects of both trees. \<open>CallExpression name params\<close> is the call of the parser,
    \<open>NewCallExpression callee arguments\<close> the call of the transformer; both have the
    \<^verbatim>\<open>type\<close> field \<^verbatim>\<open>CallExpression\<close> (\<open>node_type\<close>). \<open>old_program\<close> and \<open>new_program\<close>
    are the shapes of the two trees.
  \<^item> \<open>Tokenizer\<close>: \<^verbatim>\<open>tokenizer\<close> (lines 6 to 81). The outer loop is the partial function
    \<open>tokenizer_loop\<close> on the cursor and the tokens pushed so far, the three inner loops
    are \<open>while_option\<close> loops on \<^verbatim>\<open>value\<close>, \<^verbatim>\<open>char\<close> and \<^verbatim>\<open>current\<close>. \<open>tokenizer_step\<close>
    is one iteration of the body as a relation on the configurations
    \<^verbatim>\<open>(current, tokens)\<close>, one rule for each branch that ends in \<^verbatim>\<open>continue\<close>; a step is
    one unfolding of the loop (\<open>step_loop\<close>). The reference
    definition \<open>lex\<close> works on the rest of the input; \<open>tokenizer_eq_lex\<close> shows that the
    loops compute it, and every other lemma is proved about \<open>lex\<close> by the induction rule
    \<open>lex_induct\<close>, one case per kind of lexeme.
  \<^item> \<open>Tokenizer_Steps\<close>: the outer loop as a transition system: \<open>reachable\<close> are the
    configurations that a run of \<open>tokenizer_step\<close> from \<^verbatim>\<open>current = 0\<close>, \<^verbatim>\<open>tokens = []\<close>
    goes through.
  \<^item> \<open>Parser\<close>: \<^verbatim>\<open>parser\<close> (lines 83 to 144). \<open>walk\<close> and its loop \<open>walk_params\<close> take
    the cursor and return it; they are total, and the termination proof is the fact
    that a call that returns has moved the cursor forward. \<open>unparse\<close> prints a tree as
    tokens, \<open>walk_returns_induct\<close> is induction over the runs that return.
  \<^item> \<open>Grammar\<close>: the language of the parser as an inductive definition on token
    lists (\<open>expr_tokens\<close>, \<open>args_tokens\<close>, \<open>program_tokens\<close>), with no cursor and no
    error; it is the grammar that the code accepts, in which the token after an
    opening parenthesis is of any kind.
  \<^item> \<open>Traverser\<close>: \<^verbatim>\<open>traverser\<close> (lines 146 to 184), generic in the state of the
    hooks. Nodes are handed to the hooks with their path from the root, which stands
    for the identity of the object. \<open>events\<close> is the depth-first order of the visits,
    \<open>subnodes\<close> the nodes of a tree, \<open>tracer\<close> the visitor that records its calls.
  \<^item> \<open>Transformer\<close>: \<^verbatim>\<open>transformer\<close> (lines 186 to 240). The arrays that the hooks
    push onto are shared between the new tree and the \<^verbatim>\<open>_context\<close> fields of the old
    one, so they live in a store (\<open>arrays\<close>, addressed by index) and \<open>contexts\<close> maps
    the path of an old node to the address in its field. \<open>transformer_in h\<close> is the
    function called in the store \<open>h\<close> that earlier calls may have left; it returns the
    new tree, read out of the final store by \<open>snapshot\<close>, and that store, or throws in
    the store that it had reached. \<open>transformer\<close> is the call in the empty store, without
    the store in its result. \<open>transform_spec\<close> is the recursive specification.
  \<^item> \<open>Store_Invariant\<close>: the invariant \<open>store_ok\<close> of the store.
  \<^item> \<open>Rerun\<close>: calls of \<^verbatim>\<open>transformer\<close> on a tree whose nodes carry \<^verbatim>\<open>_context\<close> fields
    already; what a new object denotes (\<open>denotes\<close>) and the fields a call assigns
    (\<open>call_contexts\<close>, \<open>assign\<close>).
  \<^item> \<open>CodeGenerator\<close>: \<^verbatim>\<open>codeGenerator\<close> (lines 242 to 271) with
    \<^verbatim>\<open>array.map(codeGenerator)\<close> as \<open>map_codeGenerator\<close>; \<open>program_text\<close> is the text of
    a tree of the parser.
  \<^item> \<open>Compiler\<close>: \<^verbatim>\<open>compiler\<close> (lines 273 to 280), the four stages in sequence, and
    \<^verbatim>\<open>module.exports\<close> (lines 282 to 289) as the record \<open>module_exports\<close>.
  \<^item> \<open>Output\<close>: the trees of the input grammar (\<open>source_expression\<close>, \<open>well_named\<close>)
    and the text of a program read from the left.
  \<^item> \<open>Fixture\<close>: \<^verbatim>\<open>src/test.js\<close>, its constants and its script (\<open>test_script_on\<close> as a
    function of the constants, \<open>test_script\<close> on those of the file), which
    takes the functions out of \<open>module_exports\<close> and threads the console and the store
    through the ten calls of the stages and the five assertions.

  \<^bold>\<open>What is proved.\<close>

  \<^item> Tokenizer: the loops refine \<open>lex\<close>; tokens are well formed and in input order;
    printing tokens and tokenizing gives them back; the only exception names a
    character outside the five classes; it terminates on inputs without a double
    quote that do not end in a letter. Two defects: the character after a name is
    dropped (line 72), and a name at the end of the input makes the loop of lines 62
    to 65 run forever, since \<^verbatim>\<open>LETTERS.test(undefined)\<close> holds. By induction over the
    runs of the transition system: the cursor never passes the end of the input, and
    the result is the tokens pushed so far followed by those of the rest; before the end of the
    input a configuration has a step, or the call throws on the character at the
    cursor, or it is in one of the two loops that never end; every run is finite, and
    the way it ends is the outcome of the call.
  \<^item> Parser: round trip with \<open>unparse\<close>; a returned tree prints to the tokens given,
    up to the kind of the token in name position; the cursor stays within the tokens;
    the three possible exceptions and when they occur. Two defects: any token is taken
    as the name of a call, and reading past the end is the engine's error.
  \<^item> Grammar: \<^verbatim>\<open>parser\<close> returns a tree exactly when the tokens derive it
    (\<open>parser_iff_grammar\<close>, by rule induction one way and induction over the runs of
    \<open>walk\<close> the other), and throws exactly on the token lists outside the language;
    the grammar is unambiguous.
  \<^item> Traverser: refinement to the run of the hooks over \<open>events\<close>; it returns only
    on trees of the four kinds it knows; invariants of the hooks are invariants of the
    walk at both exits, on every tree; it returns when the hooks do, and every node is
    entered and then left.
  \<^item> Transformer: refinement to \<open>transform_spec\<close> on every tree of the parser, through
    an exact description of the final store; shape of the result; the errors on other
    roots and on new trees, with the store they leave.
  \<^item> Store invariant: every hook keeps \<open>store_ok\<close>, when it returns and when it
    throws, so the store is well formed at every exit of \<^verbatim>\<open>transformer\<close>; and
    \<^verbatim>\<open>transformer\<close> returns or throws on every tree, in every well-formed store.
  \<^item> Rerun: in any store, whatever fields the nodes carry, the call returns the tree of
    \<open>transform_spec\<close> and leaves the arrays that existed as they were; a second call
    on the same tree returns the same tree and does not change the first result; the
    \<^verbatim>\<open>_context\<close> fields that a call leaves on its input, exactly.
  \<^item> Code generator: it returns exactly on trees without a call of the old shape, and
    prints \<open>program_text\<close> for a transformed tree.
  \<^item> Pipeline: correctness on rendered programs, the outcome of \<^verbatim>\<open>compiler\<close> in terms
    of the first two stages, its exceptions, the scenarios of the specification that
    fail, and below the properties that span several stages: the stages fit, and
    \<^verbatim>\<open>compiler\<close> returns a text exactly when \<open>lex\<close>, the grammar and \<open>program_text\<close>
    give it.
  \<^item> Output: the text determines the tree. Two sources whose calls are named by
    letters compile to the same text exactly when they parse to the same tree
    (\<open>expression_text_unique\<close>, \<open>program_text_unique\<close>); a call named by a string token
    can compile to the text of another program.
  \<^item> Test: for every source that the tokenizer and the parser accept, the script
    passes exactly when the expected tree and the expected text are those of
    \<open>transform_spec\<close> and \<open>program_text\<close>; the script of the file is an instance and
    runs to \<^verbatim>\<open>All Passed!\<close>.

  \<^bold>\<open>Bounds and assumptions.\<close>

  \<^item> A character is a code unit below 256 (\<open>char\<close>); \<open>WHITESPACE\<close> is the part of
    \<^verbatim>\<open>\s\<close> in that range.
  \<^item> Strings and arrays have any length, cursors are natural numbers and the recursion
    over a tree has any depth. So the two loops of the tokenizer whose test never fails
    (lines 45 to 48 on a string that is not closed, lines 62 to 65 on a name at the end
    of the input) run forever, which is \<open>Diverges\<close>. An engine bounds the length of a
    string and ends them with a \<^verbatim>\<open>RangeError\<close> at \<^verbatim>\<open>value += char\<close>, and it ends a
    recursion that is too deep in the same way; neither is an exception of the model.
    What the theorems say of \<open>Diverges\<close> is to be read as "the call does not return",
    and what they say of the exceptions as "of those that the program throws or that a
    read of \<^verbatim>\<open>undefined\<close> causes".
  \<^item> \<open>snapshot\<close> follows at most as many addresses as the store has arrays. On a store
    built by the transformer the addresses in an array are greater than its own
    (\<open>store_ok\<close>), so this reaches every node: \<open>transformer_in_total\<close> shows that the
    fuel never runs out, on any tree, and \<open>transformer_refines_spec\<close> that the tree read
    on a tree of the parser is the whole new tree.
  \<^item> Hooks do not change the tree that is walked. The hooks of the transformer are
    not specified on a \<^verbatim>\<open>CallExpression\<close> object without \<^verbatim>\<open>name\<close> and \<^verbatim>\<open>params\<close>
    (\<open>new_call\<close>), so the invariant at the exits is stated for trees without one.
  \<^item> \<open>node\<close> is closed: objects of other kinds, and the \<^verbatim>\<open>default\<close> branch of
    \<^verbatim>\<open>codeGenerator\<close>, are not modelled.

  \<^bold>\<open>Not modelled.\<close>

  \<^item> Objects that lack a field of their kind. A read of an absent field gives
    \<^verbatim>\<open>undefined\<close>, and to carry it every field and every result that is a string here
    would have to be a JavaScript value. The parser builds no such object; the only
    place where the program builds one is the hook of the transformer on a
    \<^verbatim>\<open>CallExpression\<close> of the new shape, whose \<^verbatim>\<open>name\<close> is absent, so \<open>call_enter\<close> is
    left unspecified there and the walk over such a node is described up to that hook.
  \<^item> Objects of other kinds than the seven of the two trees, which alone reach the
    \<^verbatim>\<open>default\<close> branch of \<^verbatim>\<open>codeGenerator\<close>.
  \<^item> Code units above 255, and the characters of \<^verbatim>\<open>\s\<close> among them.
  \<^item> The text that \<^verbatim>\<open>console.log\<close> prints for an object (the console holds the
    values), and the module system behind \<^verbatim>\<open>require\<close> (the test reads the record of
    the exports).
\<close>

section \<open>Across the stages\<close>

lemma tokenizer_name_then_paren:
  assumes "LETTERS c" "list_all LETTERS v"
  shows "tokenizer (CHR ''('' # c # v @ '')'') = Returns [Token Paren ''('', Token Name (c # v)]"
  using lex_name [OF assms, of "CHR '')''" "[]"] by (simp add: tokenizer_eq_lex lex_paren char_class_defs)

lemma compiler_returns_spec:
  "compiler source = Returns text \<longleftrightarrow>
   (\<exists>ts body. lex source = Returns ts \<and> program_tokens ts (Program body) \<and> text = program_text body)"
proof
  assume "compiler source = Returns text"
  then obtain ts tree where "lex source = Returns ts" "parser ts = Inr tree" "text = program_text (children tree)"
    by (auto simp: compiler_cases tokenizer_eq_lex split: option.splits sum.splits)
  with parser_old_program [of ts tree] show "\<exists>ts body. lex source = Returns ts \<and>
      program_tokens ts (Program body) \<and> text = program_text body"
    by (auto simp: parser_iff_grammar)
next
  assume "\<exists>ts body. lex source = Returns ts \<and> program_tokens ts (Program body) \<and> text = program_text body"
  then show "compiler source = Returns text"
    by (auto simp: compiler_cases tokenizer_eq_lex parser_iff_grammar [symmetric])
qed

text \<open>
  Claim C26. Each stage hands the next one what it needs: whenever \<^verbatim>\<open>parser\<close>
  returns, on any tokens, the tree is a program of the old shape, \<^verbatim>\<open>transformer\<close>
  returns on it a program of the new shape, and \<^verbatim>\<open>codeGenerator\<close> returns on that.
  In a program of the new shape every statement is a literal or an
  \<^verbatim>\<open>ExpressionStatement\<close> around a call with an \<^verbatim>\<open>Identifier\<close> as callee, and no call
  stands at top level without that wrapper.
\<close>

theorem stages_fit:
  "parser ts = Inr tree \<Longrightarrow>
   old_program tree \<and>
   (\<exists>new_tree. transformer tree = Returns new_tree \<and> new_program new_tree \<and>
      (\<exists>code. codeGenerator new_tree = Inr code))"
proof -
  assume "parser ts = Inr tree"
  then obtain body where "tree = Program body" "list_all old_expression body"
    using parser_old_program [of ts tree] by auto
  then show ?thesis
    by (simp add: transformer_Program codeGenerator_transform_spec new_program_transform_spec)
qed

theorem stages_fit_witness:
  "old_program (Program [CallExpression ''f'' [NumberLiteral ''1'']]) \<and>
   (\<exists>new_tree. transformer (Program [CallExpression ''f'' [NumberLiteral ''1'']]) = Returns new_tree \<and>
      new_program new_tree \<and> (\<exists>code. codeGenerator new_tree = Inr code))"
  using stages_fit [of "[Token Paren ''('', Token Name ''f'', Token Number ''1'', Token Paren '')'']"
      "Program [CallExpression ''f'' [NumberLiteral ''1'']]"]
  by (simp add: parser_eval)

text \<open>
  Claim C28. A call without arguments cannot be compiled: in \<^verbatim>\<open>(name)\<close> the closing
  parenthesis follows the name, the tokenizer drops it, and the parser reads past the
  end of the tokens. The specification expects \<^verbatim>\<open>name();\<close>.
\<close>

theorem call_without_arguments_fails:
  "LETTERS c \<Longrightarrow> list_all LETTERS v \<Longrightarrow>
   compiler (CHR ''('' # c # v @ '')'') = Throws TypeError_undefined"
  using walk_call [of 0 "[Token Paren ''('', Token Name (c # v)]" "Token Name (c # v)" "[]"]
  by (simp add: compiler_cases tokenizer_name_then_paren parser_def
      parser_loop_more [of 0 _ "Token Paren ''(''"] walk_params_end)

theorem call_without_arguments_fails_witness:
  "compiler ''(subtract)'' = Throws TypeError_undefined"
  using call_without_arguments_fails [of "CHR ''s''" "''ubtract''"]
  by (simp add: char_class_defs)

text \<open>
  Tokenizing and parsing invert rendering: for a body of well-formed
  literals and calls, the first two stages applied to its source text return the
  \<^verbatim>\<open>Program\<close> with that body.
\<close>

theorem front_end_inverts_render:
  "source_ok body \<Longrightarrow>
   bind_outcome (tokenizer (render body)) (\<lambda>ts. Some (parser ts)) = Returns (Program body)"
  by (simp add: source_ok_def render_def tokenizer_eq_lex lex_unlex parser_unparse)

theorem front_end_inverts_render_witness:
  "bind_outcome (tokenizer (''(f 1 '' @ [quote] @ ''x'' @ [quote] @ '')''))
     (\<lambda>ts. Some (parser ts)) =
   Returns (Program [CallExpression ''f'' [NumberLiteral ''1'', StringLiteral ''x'']])"
  using front_end_inverts_render [of "[CallExpression ''f'' [NumberLiteral ''1'', StringLiteral ''x'']]"]
  by (simp add: source_ok_def render_def unlex_def lexeme_def token_ok_def char_class_defs quote_def)

text \<open>
  Claim C17. What \<^verbatim>\<open>compiler\<close> computes, in terms of the three specifications: it
  returns a text exactly when the reference lexer \<open>lex\<close> returns tokens for the input,
  the tokens derive a program in the grammar, and the text is the text of that
  program. The loops, the cursor, the walk and the store of the four stages have no
  other effect on the result.
\<close>

theorem compiler_returns_iff:
  "compiler source = Returns text \<longleftrightarrow>
   (\<exists>ts body. lex source = Returns ts \<and> program_tokens ts (Program body) \<and> text = program_text body)"
  by (rule compiler_returns_spec)

end
